theory Spec2Isabelle
  imports Main "HOL-Library.Word"
begin

unbundle bit_operations_syntax

section \<open>Machine integers of the firmware\<close>

text \<open>
  The target is a 32-bit microcontroller: \<open>uint8_t\<close>, \<open>uint16_t\<close> and \<open>uint32_t\<close> are
  words, arithmetic on the two small types is carried out in \<open>int\<close> after the integer
  promotions and truncated again when the result is stored. C's \<open>int\<close> is modelled by
  HOL's \<open>int\<close>; lemma \<open>Rssi2DBm_fits_int\<close> and \<open>dbm2rssi_arg_fits_int\<close> below show that
  the \<open>int\<close> values of the calibration arithmetic stay far inside 32 bits.
\<close>

type_synonym u8 = "8 word"
type_synonym u16 = "16 word"
type_synonym u32 = "32 word"

definition to_u16 :: "int \<Rightarrow> u16" where
  \<comment> \<open>storing an \<open>int\<close> into a \<open>uint16_t\<close>: reduction modulo 65536\<close>
  "to_u16 x = word_of_int x"

definition to_i16 :: "int \<Rightarrow> int" where
  \<comment> \<open>the value of an \<open>int16_t\<close> that an \<open>int\<close> was stored in (two's complement)\<close>
  "to_i16 x = sint (word_of_int x :: 16 word)"

definition to_u8 :: "int \<Rightarrow> u8" where
  "to_u8 x = word_of_int x"

definition to_u32 :: "int \<Rightarrow> u32" where
  "to_u32 x = word_of_int x"

definition c_div :: "int \<Rightarrow> int \<Rightarrow> int" where
  \<comment> \<open>C's \<open>/\<close> on \<open>int\<close>: the quotient is cut towards zero\<close>
  "c_div a b = (if (a < 0) = (b < 0) then \<bar>a\<bar> div \<bar>b\<bar> else - (\<bar>a\<bar> div \<bar>b\<bar>))"

section \<open>Constants (spectrum.c, lines 135--168)\<close>

definition RSSI_MAX_VALUE :: u16 where
  "RSSI_MAX_VALUE = 65535"

definition SPECTRUM_MAX_STEPS :: nat where
  "SPECTRUM_MAX_STEPS = 128"

definition WATERFALL_HISTORY_DEPTH :: nat where
  "WATERFALL_HISTORY_DEPTH = 16"

definition BLACKLIST_MAX_ENTRIES :: nat where
  "BLACKLIST_MAX_ENTRIES = 15"

definition DISPLAY_DBM_MIN :: int where
  "DISPLAY_DBM_MIN = - 130"

definition DISPLAY_DBM_MAX :: int where
  "DISPLAY_DBM_MAX = - 50"

section \<open>Data\<close>

text \<open>
  The structs \<open>PeakInfo\<close>, \<open>ScanInfo\<close> and \<open>SpectrumSettings\<close> and the enumerations are
  declared in \<open>app/spectrum.h\<close>; the fields below are the ones spectrum.c reads and
  writes, with the widths its casts, its \<open>RSSI_MAX_VALUE\<close> sentinel and its buffers give
  them. Field names carry the name of the C variable as a prefix (\<open>peak.t\<close> is
  \<open>peak_t\<close>, \<open>scanInfo.i\<close> is \<open>scan_i\<close>).
\<close>

datatype State = SPECTRUM | FREQ_INPUT | STILL

datatype StepsCount = STEPS_128 | STEPS_64 | STEPS_32 | STEPS_16

fun StepsCount_val :: "StepsCount \<Rightarrow> nat" where
  \<comment> \<open>the enumerators' values: \<open>128 >> settings.stepsCount\<close> is the number of bins\<close>
  "StepsCount_val STEPS_128 = 0"
| "StepsCount_val STEPS_64 = 1"
| "StepsCount_val STEPS_32 = 2"
| "StepsCount_val STEPS_16 = 3"

record PeakInfo =
  peak_t :: u16
  peak_rssi :: u16
  peak_f :: u32
  peak_i :: u16

record ScanInfo =
  scan_rssi :: u16
  scan_rssiMin :: u16
  scan_rssiMax :: u16
  scan_i :: u16
  scan_iPeak :: u16
  scan_f :: u32
  scan_fPeak :: u32
  scan_scanStep :: u16
  scan_measurementsCount :: u16

record SpectrumSettings =
  stepsCount :: StepsCount
  scanStepIndex :: nat
  rssiTriggerLevel :: u16
  modulationType :: nat
  dbMin :: int
  dbMax :: int

text \<open>
  Build options of spectrum.c (\<open>#ifdef\<close>) are a parameter of the model, so that every
  variant of the firmware is covered.
\<close>

record build =
  ENABLE_SCAN_RANGES :: bool
  ENABLE_FEAT_N7SIX_SPECTRUM :: bool
  ENABLE_AM_FIX :: bool
  SPECTRUM_AUTOMATIC_SQUELCH :: bool

text \<open>
  What spectrum.c takes from other modules: the calibration offset
  \<open>dBmCorrTable[gRxVfo->Band]\<close>, the table \<open>scanStepValues\<close>, the enumerators
  \<open>S_STEP_2_5kHz\<close> and \<open>MODULATION_AM\<close>, and the scan range of the channel scanner.
  They are parameters.
\<close>

record extern =
  dBmCorr :: int
  scanStepValues :: "nat \<Rightarrow> u16"
  S_STEP_2_5kHz :: nat
  MODULATION_AM :: nat
  gScanRangeStart :: u32
  gScanRangeStop :: u32

text \<open>
  Calls that reach the RF front end and set its frequency are traced, oldest first:
  \<open>BK4819_SetFrequency f\<close>, and \<open>RADIO_SetupRegisters\<close> together with the frequency
  that \<open>ToggleRX\<close> stored in \<open>gRxVfo->pRX->Frequency\<close> just before. Register writes
  that carry no frequency, the audio path and the LEDs are not traced.
\<close>

datatype rf_call = BK4819_SetFrequency u32 | RADIO_SetupRegisters u32

text \<open>
  \<open>rssiHistory\<close> is the memory that starts at the array, addressed by element index:
  the array itself is the cells below \<open>SPECTRUM_MAX_STEPS\<close>. An access at a larger index
  is outside the array: undefined in C, and on the target an access to whatever object the
  linker has placed behind the array, which the source does not determine. Every such
  access is recorded in \<open>outOfBounds\<close>, oldest first, a write together with the value
  written. The cells from index 128 on stand for that neighbouring memory at the moment it
  is read; the model keeps them apart from the other globals, so what it says about these
  cells, or about another global after a recorded write, holds for the model only. What the
  program does past the end of the array is stated through \<open>outOfBounds\<close>.
\<close>

datatype access = HistRead nat | HistWrite nat u16

record globals =
  isListening :: bool
  monitorMode :: bool
  redrawStatus :: bool
  redrawScreen :: bool
  newScanStart :: bool
  preventKeypress :: bool
  audioState :: bool
  currentState :: State
  peak :: PeakInfo
  scanInfo :: ScanInfo
  settings :: SpectrumSettings
  fMeasure :: u32
  currentFreq :: u32
  rssiHistory :: "nat \<Rightarrow> u16"
  waterfallHistory :: "nat \<Rightarrow> nat \<Rightarrow> u8"
  waterfallIndex :: u8
  scanWaterfallCounter :: u8
  listenWaterfallCounter :: u8
  listenT :: u16
  blacklistFreqs :: "u16 list"
  blacklistFreqsIdx :: u8
  rf :: "rf_call list"
  outOfBounds :: "access list"

section \<open>Calibration (CalibrationMath)\<close>

definition clamp :: "int \<Rightarrow> int \<Rightarrow> int \<Rightarrow> int" where
  "clamp v mn mx = (if v \<le> mn then mn else (if v \<ge> mx then mx else v))"

definition Rssi2DBm :: "extern \<Rightarrow> u16 \<Rightarrow> int" where
  "Rssi2DBm e rssi = (uint rssi div 2) - 160 + dBmCorr e"

definition dbm2rssi :: "extern \<Rightarrow> int \<Rightarrow> u16" where
  "dbm2rssi e dBm = to_u16 ((dBm + 160 - dBmCorr e) * 2)"

section \<open>Trigger level and held peak\<close>

definition IsPeakOverLevel :: "globals \<Rightarrow> bool" where
  "IsPeakOverLevel s = (peak_rssi (peak s) \<ge> rssiTriggerLevel (settings s))"

definition ResetPeak :: "globals \<Rightarrow> globals" where
  "ResetPeak s = s\<lparr>peak := (peak s)\<lparr>peak_t := 0, peak_rssi := 0\<rparr>\<rparr>"

definition set_rssiTriggerLevel :: "u16 \<Rightarrow> globals \<Rightarrow> globals" where
  \<comment> \<open>the assignment \<open>settings.rssiTriggerLevel = v\<close>\<close>
  "set_rssiTriggerLevel v s = s\<lparr>settings := (settings s)\<lparr>rssiTriggerLevel := v\<rparr>\<rparr>"

definition ramp_step :: "int \<Rightarrow> int" where
  \<comment> \<open>\<open>(diff > 6) ? 3 : ((diff > 3) ? 2 : 1)\<close>\<close>
  "ramp_step diff = (if diff > 6 then 3 else (if diff > 3 then 2 else 1))"

definition AutoTriggerLevel :: "globals \<Rightarrow> globals" where
  "AutoTriggerLevel s =
    (let T = rssiTriggerLevel (settings s);
         rssiMax = scan_rssiMax (scanInfo s)
     in if T = RSSI_MAX_VALUE then
          (let initialTrigger = to_u16 (uint rssiMax + 20)
           in set_rssiTriggerLevel
                (to_u16 (clamp (uint initialTrigger) 0 (uint RSSI_MAX_VALUE))) s)
        else
          (let newTrigger0 = to_u16 (clamp (uint rssiMax + 8) 0 (uint RSSI_MAX_VALUE));
               MIN_TRIGGER = to_u16 (uint rssiMax + 15);
               newTrigger = (if newTrigger0 < MIN_TRIGGER then MIN_TRIGGER else newTrigger0)
           in if newTrigger > T then
                (let diff = to_i16 (sint newTrigger - sint T);
                     step = ramp_step diff;
                     T1 = to_u16 (uint T + step)
                 in set_rssiTriggerLevel (if T1 > newTrigger then newTrigger else T1) s)
              else if uint newTrigger < uint T - 4 then
                (let diff = to_i16 (sint T - sint newTrigger);
                     step = ramp_step diff;
                     T1 = to_u16 (uint T - step)
                 in set_rssiTriggerLevel (if T1 < newTrigger then newTrigger else T1) s)
              else s))"

definition UpdatePeakInfoForce :: "globals \<Rightarrow> globals" where
  "UpdatePeakInfoForce s =
     AutoTriggerLevel
       (s\<lparr>peak := (peak s)\<lparr>peak_t := 0,
                            peak_rssi := scan_rssiMax (scanInfo s),
                            peak_f := scan_fPeak (scanInfo s),
                            peak_i := scan_iPeak (scanInfo s)\<rparr>\<rparr>)"

definition UpdatePeakInfo :: "globals \<Rightarrow> globals" where
  "UpdatePeakInfo s =
     (if peak_f (peak s) = 0 \<or> peak_t (peak s) \<ge> 1024
         \<or> peak_rssi (peak s) < scan_rssiMax (scanInfo s)
      then UpdatePeakInfoForce s
      else s\<lparr>peak := (peak s)\<lparr>peak_t := peak_t (peak s) + 1\<rparr>\<rparr>)"

definition ClampRssiTriggerLevel :: "extern \<Rightarrow> globals \<Rightarrow> globals" where
  "ClampRssiTriggerLevel e s =
     set_rssiTriggerLevel
       (to_u16 (clamp (uint (rssiTriggerLevel (settings s)))
                      (uint (dbm2rssi e (dbMin (settings s))))
                      (uint (dbm2rssi e (dbMax (settings s)))))) s"

definition UpdateRssiTriggerLevel :: "extern \<Rightarrow> bool \<Rightarrow> globals \<Rightarrow> globals" where
  "UpdateRssiTriggerLevel e inc s =
     (let s1 = (if inc then set_rssiTriggerLevel (rssiTriggerLevel (settings s) + 2) s
                else set_rssiTriggerLevel (rssiTriggerLevel (settings s) - 2) s)
      in (ClampRssiTriggerLevel e s1)\<lparr>redrawScreen := True, redrawStatus := True\<rparr>)"

section \<open>RSSI acquisition (SignalAcquisition)\<close>




section \<open>Sweep (FrequencySweepController)\<close>

definition SetF :: "u32 \<Rightarrow> globals \<Rightarrow> globals" where
  "SetF f s = s\<lparr>fMeasure := f, rf := rf s @ [BK4819_SetFrequency f]\<rparr>"

definition IsCenterMode :: "extern \<Rightarrow> globals \<Rightarrow> bool" where
  "IsCenterMode e s = (scanStepIndex (settings s) < S_STEP_2_5kHz e)"

definition GetScanStep :: "extern \<Rightarrow> globals \<Rightarrow> u16" where
  "GetScanStep e s = scanStepValues e (scanStepIndex (settings s))"

definition GetStepsCount :: "build \<Rightarrow> extern \<Rightarrow> globals \<Rightarrow> u16" where
  \<comment> \<open>a scan step of 0 would divide by zero in the first branch; HOL's \<open>div\<close> gives 0\<close>
  "GetStepsCount b e s =
     (if ENABLE_SCAN_RANGES b \<and> gScanRangeStart e \<noteq> 0 then
        (let range = gScanRangeStop e - gScanRangeStart e;
             step = GetScanStep e s
         in ucast ((range div ucast step) + 1))
      else to_u16 (drop_bit (StepsCount_val (stepsCount (settings s))) 128))"

definition GetBW :: "build \<Rightarrow> extern \<Rightarrow> globals \<Rightarrow> u32" where
  \<comment> \<open>the C product is an \<open>int\<close>; the model takes the exact product modulo \<open>2 ^ 32\<close>\<close>
  "GetBW b e s = to_u32 (uint (GetStepsCount b e s) * uint (GetScanStep e s))"

definition GetFStart :: "build \<Rightarrow> extern \<Rightarrow> globals \<Rightarrow> u32" where
  "GetFStart b e s =
     (if IsCenterMode e s then currentFreq s - drop_bit 1 (GetBW b e s) else currentFreq s)"

definition TuneToPeak :: "globals \<Rightarrow> globals" where
  "TuneToPeak s =
     (let s1 = s\<lparr>scanInfo := (scanInfo s)\<lparr>scan_f := peak_f (peak s),
                                            scan_rssi := peak_rssi (peak s),
                                            scan_i := peak_i (peak s)\<rparr>\<rparr>
      in SetF (scan_f (scanInfo s1)) s1)"

definition ToggleAudio :: "bool \<Rightarrow> globals \<Rightarrow> globals" where
  "ToggleAudio on s = (if on = audioState s then s else s\<lparr>audioState := on\<rparr>)"

definition ToggleRX :: "build \<Rightarrow> bool \<Rightarrow> globals \<Rightarrow> globals" where
  "ToggleRX b on s =
     (if ENABLE_FEAT_N7SIX_SPECTRUM b \<and> isListening s = on then s
      else
        (let s1 = s\<lparr>isListening := on\<rparr>
         in if on then
              (let s2 = s1\<lparr>rf := rf s1 @ [RADIO_SetupRegisters (fMeasure s1)]\<rparr>;
                   s3 = ToggleAudio True s2
               in s3\<lparr>listenT := (if ENABLE_FEAT_N7SIX_SPECTRUM b then 20 else 100)\<rparr>)
            else ToggleAudio False s1))"

definition ResetScanStats :: "globals \<Rightarrow> globals" where
  "ResetScanStats s =
     s\<lparr>scanInfo := (scanInfo s)\<lparr>scan_rssi := 0, scan_rssiMax := 0,
                                   scan_iPeak := 0, scan_fPeak := 0\<rparr>\<rparr>"

definition InitScan :: "build \<Rightarrow> extern \<Rightarrow> globals \<Rightarrow> globals" where
  "InitScan b e s =
     (let s1 = ResetScanStats s
      in s1\<lparr>scanInfo := (scanInfo s1)\<lparr>scan_i := 0,
                                           scan_f := GetFStart b e s1,
                                           scan_scanStep := GetScanStep e s1,
                                           scan_measurementsCount := GetStepsCount b e s1\<rparr>\<rparr>)"

definition RelaunchScan :: "build \<Rightarrow> extern \<Rightarrow> globals \<Rightarrow> globals" where
  "RelaunchScan b e s =
     (let s1 = ToggleRX b False (ResetPeak (InitScan b e s));
          s2 = (if SPECTRUM_AUTOMATIC_SQUELCH b
                then set_rssiTriggerLevel RSSI_MAX_VALUE s1 else s1)
      in s2\<lparr>preventKeypress := True,
             scanInfo := (scanInfo s2)\<lparr>scan_rssiMin := RSSI_MAX_VALUE\<rparr>\<rparr>)"

definition UpdateScanInfo :: "extern \<Rightarrow> globals \<Rightarrow> globals" where
  "UpdateScanInfo e s =
     (let s1 = (if scan_rssi (scanInfo s) > scan_rssiMax (scanInfo s)
                then s\<lparr>scanInfo := (scanInfo s)\<lparr>scan_rssiMax := scan_rssi (scanInfo s),
                                                   scan_fPeak := scan_f (scanInfo s),
                                                   scan_iPeak := scan_i (scanInfo s)\<rparr>\<rparr>
                else s)
      in if scan_rssi (scanInfo s1) < scan_rssiMin (scanInfo s1)
         then s1\<lparr>scanInfo := (scanInfo s1)\<lparr>scan_rssiMin := scan_rssi (scanInfo s1)\<rparr>,
                  settings := (settings s1)\<lparr>dbMin := Rssi2DBm e (scan_rssi (scanInfo s1))\<rparr>,
                  redrawStatus := True\<rparr>
         else s1)"

fun access_index :: "access \<Rightarrow> nat" where
  "access_index (HistRead k) = k"
| "access_index (HistWrite k v) = k"

definition note_access :: "access \<Rightarrow> globals \<Rightarrow> globals" where
  \<comment> \<open>an access inside the array leaves no trace\<close>
  "note_access a s =
     (if access_index a < SPECTRUM_MAX_STEPS then s
      else s\<lparr>outOfBounds := outOfBounds s @ [a]\<rparr>)"

definition rssiHistory_store :: "nat \<Rightarrow> u16 \<Rightarrow> globals \<Rightarrow> globals" where
  \<comment> \<open>\<open>rssiHistory[k] = v\<close>\<close>
  "rssiHistory_store k v s =
     (note_access (HistWrite k v) s)\<lparr>rssiHistory := (rssiHistory s)(k := v)\<rparr>"

definition SetRssiHistory :: "build \<Rightarrow> u16 \<Rightarrow> u16 \<Rightarrow> globals \<Rightarrow> globals" where
  "SetRssiHistory b idx rssi s =
     (if ENABLE_SCAN_RANGES b \<and> scan_measurementsCount (scanInfo s) > 128 then
        (let i = (ucast (((128 :: u32) * 1000 div ucast (scan_measurementsCount (scanInfo s)))
                           * ucast idx div 1000) :: u8);
             s1 = note_access (HistRead (unat i)) s;
             s2 = (if rssiHistory s1 (unat i) < rssi \<or> isListening s1
                   then rssiHistory_store (unat i) rssi s1 else s1)
         in rssiHistory_store ((unat i + 1) mod 128) 0 s2)
      else rssiHistory_store (unat idx) rssi s)"

text \<open>
  A step that measures calls \<open>GetRssi\<close>. The step functions below take the value that
  call returned as an argument; a call that does not return is the subject of \<open>GetRssi\<close>
  alone.
\<close>

definition Measure :: "build \<Rightarrow> u16 \<Rightarrow> globals \<Rightarrow> globals" where
  \<comment> \<open>\<open>rssi\<close> is the value that the call of \<open>GetRssi\<close> returned\<close>
  "Measure b rssi s =
     SetRssiHistory b (scan_i (scanInfo s)) rssi
       (s\<lparr>scanInfo := (scanInfo s)\<lparr>scan_rssi := rssi\<rparr>\<rparr>)"

definition IsBlacklisted :: "globals \<Rightarrow> u16 \<Rightarrow> bool" where
  "IsBlacklisted s idx = (blacklistFreqsIdx s \<noteq> 0 \<and> idx \<in> set (blacklistFreqs s))"

definition Scan :: "build \<Rightarrow> extern \<Rightarrow> u16 \<Rightarrow> globals \<Rightarrow> globals" where
  \<comment> \<open>\<open>rssi\<close> is what \<open>GetRssi\<close> returns if this step measures\<close>
  "Scan b e rssi s =
     (let s0 = note_access (HistRead (unat (scan_i (scanInfo s)))) s
      in if rssiHistory s0 (unat (scan_i (scanInfo s0))) \<noteq> RSSI_MAX_VALUE
            \<and> (if ENABLE_SCAN_RANGES b then \<not> IsBlacklisted s0 (scan_i (scanInfo s0)) else True)
         then UpdateScanInfo e (Measure b rssi (SetF (scan_f (scanInfo s0)) s0))
         else s0)"

definition NextScanStep :: "globals \<Rightarrow> globals" where
  "NextScanStep s =
     s\<lparr>peak := (peak s)\<lparr>peak_t := peak_t (peak s) + 1\<rparr>,
       scanInfo := (scanInfo s)\<lparr>scan_i := scan_i (scanInfo s) + 1,
                                   scan_f := scan_f (scanInfo s)
                                             + ucast (scan_scanStep (scanInfo s))\<rparr>\<rparr>"

section \<open>Waterfall (WaterfallBuffer)\<close>

record wf_stats =
  minRssi :: u16
  maxRssi :: u16
  sumRssi :: u32
  validSamples :: u16

definition wf_analyze_step :: "(nat \<Rightarrow> u16) \<Rightarrow> nat \<Rightarrow> wf_stats \<Rightarrow> wf_stats" where
  \<comment> \<open>body of the first loop of \<open>UpdateWaterfall\<close>\<close>
  "wf_analyze_step h x st =
     (let rssi = h x
      in if rssi \<noteq> RSSI_MAX_VALUE \<and> rssi \<noteq> 0 then
           st\<lparr>minRssi := (if rssi < minRssi st then rssi else minRssi st),
              maxRssi := (if rssi > maxRssi st then rssi else maxRssi st),
              sumRssi := sumRssi st + ucast rssi,
              validSamples := validSamples st + 1\<rparr>
         else st)"

definition wf_analyze :: "(nat \<Rightarrow> u16) \<Rightarrow> wf_stats" where
  "wf_analyze h =
     fold (wf_analyze_step h) [0..<SPECTRUM_MAX_STEPS]
       \<lparr>minRssi = 65535, maxRssi = 0, sumRssi = 0, validSamples = 0\<rparr>"

definition wf_level :: "wf_stats \<Rightarrow> u16 \<Rightarrow> u8" where
  \<comment> \<open>body of the second loop: the level stored for a bin that holds \<open>rssi\<close>\<close>
  "wf_level st rssi =
     (if rssi = RSSI_MAX_VALUE \<or> rssi = 0 then 0
      else if validSamples st > 0 then
        (let range = (if maxRssi st > minRssi st then maxRssi st - minRssi st else 1);
             normalized = to_u32 (c_div ((uint rssi - uint (minRssi st)) * 15) (uint range));
             level = (ucast (normalized AND 0x0F) :: u8)
         in if level > 0 \<and> level < 3 then 3 else level)
      else 0)"

definition UpdateWaterfall :: "globals \<Rightarrow> globals" where
  "UpdateWaterfall s =
     (let wi = to_u8 ((uint (waterfallIndex s) + 1) mod int WATERFALL_HISTORY_DEPTH);
          st = wf_analyze (rssiHistory s)
      in s\<lparr>waterfallIndex := wi,
            waterfallHistory :=
              fold (\<lambda>x wf. wf(x := (wf x)(unat wi := wf_level st (rssiHistory s x))))
                   [0..<SPECTRUM_MAX_STEPS] (waterfallHistory s)\<rparr>)"

definition to_i8 :: "int \<Rightarrow> int" where
  \<comment> \<open>the value of an \<open>int8_t\<close> that an \<open>int\<close> was stored in\<close>
  "to_i8 x = sint (word_of_int x :: 8 word)"

definition historyRow :: "u8 \<Rightarrow> u8 \<Rightarrow> int" where
  \<comment> \<open>\<open>DrawWaterfall\<close>: the row of \<open>waterfallHistory\<close> that is \<open>y_offset\<close> pushes old\<close>
  "historyRow wi y_offset =
     (let r = to_i8 (sint wi - sint y_offset)
      in if r < 0 then to_i8 (r + int WATERFALL_HISTORY_DEPTH) else r)"

section \<open>Mode switching (ModeStateMachine)\<close>

definition UpdateScan :: "build \<Rightarrow> extern \<Rightarrow> u16 \<Rightarrow> globals \<Rightarrow> globals" where
  "UpdateScan b e rssi s =
     (let s1 = Scan b e rssi s
      in if scan_i (scanInfo s1) < scan_measurementsCount (scanInfo s1) then NextScanStep s1
         else
           (let mc = scan_measurementsCount (scanInfo s1);
                s2 = (if drop_bit 7 mc = 0
                      then s1\<lparr>rssiHistory :=
                                (\<lambda>k. if unat mc \<le> k \<and> k < SPECTRUM_MAX_STEPS then 0
                                     else rssiHistory s1 k)\<rparr>
                      else s1);
                s3 = s2\<lparr>redrawScreen := True, preventKeypress := False\<rparr>;
                s4 = UpdatePeakInfo s3;
                c = scanWaterfallCounter s4 + 1;
                s5 = (if c \<ge> 2 then (UpdateWaterfall s4)\<lparr>scanWaterfallCounter := 0\<rparr>
                      else s4\<lparr>scanWaterfallCounter := c\<rparr>)
            in if IsPeakOverLevel s5 then TuneToPeak (ToggleRX b True s5)
               else s5\<lparr>newScanStart := True\<rparr>))"

definition UpdateListening :: "build \<Rightarrow> extern \<Rightarrow> bool \<Rightarrow> u16 \<Rightarrow> globals \<Rightarrow> globals" where
  \<comment> \<open>\<open>tail\<close> is the result of \<open>checkIfTailFound()\<close> (read only in the N7SIX build),
      \<open>rssi\<close> what \<open>GetRssi\<close> returns if this tick measures\<close>
  "UpdateListening b e tail rssi s =
     (let s0 = s\<lparr>preventKeypress := False\<rparr>;
          tailFound = (ENABLE_FEAT_N7SIX_SPECTRUM b \<and> tail);
          s1 = (if ENABLE_FEAT_N7SIX_SPECTRUM b
                then (if tailFound then s0\<lparr>listenT := 0\<rparr> else s0)
                else (if currentState s0 = STILL then s0\<lparr>listenT := 0\<rparr> else s0))
      in if listenT s1 \<noteq> 0 then s1\<lparr>listenT := listenT s1 - 1\<rparr>
         else
           (let s2 = (if currentState s1 = SPECTRUM then
                        (let m = Measure b rssi s1;
                             c = listenWaterfallCounter m + 1
                         in if c \<ge> 2 then (UpdateWaterfall m)\<lparr>listenWaterfallCounter := 0\<rparr>
                            else m\<lparr>listenWaterfallCounter := c\<rparr>)
                      else Measure b rssi s1);
                s3 = s2\<lparr>peak := (peak s2)\<lparr>peak_rssi := scan_rssi (scanInfo s2)\<rparr>,
                        redrawScreen := True\<rparr>
            in if (IsPeakOverLevel s3 \<and> \<not> tailFound) \<or> monitorMode s3
               then s3\<lparr>listenT := (if ENABLE_FEAT_N7SIX_SPECTRUM b then 100 else 1000)\<rparr>
               else ResetScanStats (ToggleRX b False s3)))"

section \<open>Start-up values and example parameters\<close>

text \<open>
  The initialisers of the globals (lines 189--278), with C's zero for what has none.
  \<open>S_STEP_25_0kHz\<close> comes from \<open>app/spectrum.h\<close> and is a parameter.
\<close>

definition settings_init :: "nat \<Rightarrow> SpectrumSettings" where
  "settings_init S_STEP_25_0kHz =
     \<lparr>stepsCount = STEPS_64, scanStepIndex = S_STEP_25_0kHz, rssiTriggerLevel = 150,
      modulationType = 0, dbMin = DISPLAY_DBM_MIN, dbMax = DISPLAY_DBM_MAX\<rparr>"

definition globals_init :: "nat \<Rightarrow> globals" where
  "globals_init S_STEP_25_0kHz =
     \<lparr>isListening = True, monitorMode = False, redrawStatus = True, redrawScreen = False,
      newScanStart = True, preventKeypress = True, audioState = True,
      currentState = SPECTRUM,
      peak = \<lparr>peak_t = 0, peak_rssi = 0, peak_f = 0, peak_i = 0\<rparr>,
      scanInfo = \<lparr>scan_rssi = 0, scan_rssiMin = 0, scan_rssiMax = 0, scan_i = 0,
                  scan_iPeak = 0, scan_f = 0, scan_fPeak = 0, scan_scanStep = 0,
                  scan_measurementsCount = 0\<rparr>,
      settings = settings_init S_STEP_25_0kHz,
      fMeasure = 0, currentFreq = 0,
      rssiHistory = (\<lambda>k. 0), waterfallHistory = (\<lambda>x y. 0), waterfallIndex = 0,
      scanWaterfallCounter = 0, listenWaterfallCounter = 0, listenT = 0,
      blacklistFreqs = replicate BLACKLIST_MAX_ENTRIES 0, blacklistFreqsIdx = 0,
      rf = [], outOfBounds = []\<rparr>"

text \<open>
  One choice of the parameters, for examples: calibration offset 0, every scan step
  25 kHz (2500 units of 10 Hz), step index 12 for 25 kHz and 4 for 2.5 kHz, no scan range,
  and a build without optional features.
\<close>

definition bench :: extern where
  "bench = \<lparr>dBmCorr = 0, scanStepValues = (\<lambda>k. 2500), S_STEP_2_5kHz = 4,
            MODULATION_AM = 1, gScanRangeStart = 0, gScanRangeStop = 0\<rparr>"

definition plain_build :: build where
  "plain_build = \<lparr>ENABLE_SCAN_RANGES = False, ENABLE_FEAT_N7SIX_SPECTRUM = False,
                  ENABLE_AM_FIX = False, SPECTRUM_AUTOMATIC_SQUELCH = False\<rparr>"

section \<open>Example states\<close>

text \<open>
  Scenario A of the specification: a sweep has ended with minimum 100 and maximum 300
  (so \<open>dbMin\<close> is \<open>Rssi2DBm 100\<close>, which is \<open>- 110\<close> at offset 0) while the trigger
  level still is the sentinel.
\<close>

definition scenario_A :: globals where
  "scenario_A =
     (globals_init 12)\<lparr>isListening := False,
        scanInfo := (scanInfo (globals_init 12))\<lparr>scan_rssiMin := 100, scan_rssiMax := 300\<rparr>,
        settings := (settings_init 12)\<lparr>rssiTriggerLevel := RSSI_MAX_VALUE, dbMin := - 110\<rparr>\<rparr>"

text \<open>
  Scenario B of the specification: the trigger level is 150 and the sweep has ended with
  minimum and maximum 150, a noise floor of 150, so that the floor plus 12 is 162; the
  target of \<open>AutoTriggerLevel\<close> is 165 here. In \<open>scenario_B_147\<close> the sweep has ended
  with minimum 140 and maximum 147 instead, which makes the target of
  \<open>AutoTriggerLevel\<close> itself 162. \<open>wide_gap\<close> has the trigger level at 60000 and the
  sweep maximum at 100.
\<close>

definition scenario_B :: globals where
  "scenario_B =
     (globals_init 12)\<lparr>isListening := False,
        scanInfo := (scanInfo (globals_init 12))\<lparr>scan_rssiMin := 150, scan_rssiMax := 150\<rparr>\<rparr>"

definition scenario_B_147 :: globals where
  "scenario_B_147 =
     (globals_init 12)\<lparr>isListening := False,
        scanInfo := (scanInfo (globals_init 12))\<lparr>scan_rssiMin := 140, scan_rssiMax := 147\<rparr>\<rparr>"

definition wide_gap :: globals where
  "wide_gap =
     (globals_init 12)\<lparr>isListening := False,
        scanInfo := (scanInfo (globals_init 12))\<lparr>scan_rssiMin := 90, scan_rssiMax := 100\<rparr>,
        settings := (settings_init 12)\<lparr>rssiTriggerLevel := 60000\<rparr>\<rparr>"

text \<open>
  A held peak at bin 10 whose age has reached 1024 while the sweep maximum equals the held
  value (scenario C of the specification).
\<close>

definition peak_demo :: globals where
  "peak_demo =
     (globals_init 12)\<lparr>isListening := False,
        peak := \<lparr>peak_t = 1024, peak_rssi = 200, peak_f = 146525000, peak_i = 10\<rparr>,
        scanInfo := (scanInfo (globals_init 12))\<lparr>scan_rssiMin := 90, scan_rssiMax := 200,
                       scan_fPeak := 146525000, scan_iPeak := 10\<rparr>\<rparr>"



section \<open>Notions used in the statements\<close>

text \<open>
  Auxiliary notions for the waterfall. A sample counts in \<open>UpdateWaterfall\<close> when it is
  neither the skip sentinel nor 0; \<open>wf_inv h n st\<close> is what the first loop has
  established after \<open>n\<close> bins.
\<close>

definition valid_sample :: "u16 \<Rightarrow> bool" where
  "valid_sample rssi = (rssi \<noteq> RSSI_MAX_VALUE \<and> rssi \<noteq> 0)"

definition wf_inv :: "(nat \<Rightarrow> u16) \<Rightarrow> nat \<Rightarrow> wf_stats \<Rightarrow> bool" where
  "wf_inv h n st =
     ((\<forall>x<n. valid_sample (h x) \<longrightarrow> minRssi st \<le> h x \<and> h x \<le> maxRssi st)
      \<and> unat (validSamples st) \<le> n
      \<and> (if \<exists>x<n. valid_sample (h x)
         then (\<exists>x<n. valid_sample (h x) \<and> h x = minRssi st)
              \<and> (\<exists>x<n. valid_sample (h x) \<and> h x = maxRssi st)
              \<and> validSamples st \<noteq> 0
         else minRssi st = 65535 \<and> maxRssi st = 0 \<and> validSamples st = 0))"

text \<open>
  The level as the specification words it: over the valid samples of the sweep, with
  \<open>sweepMin\<close> and \<open>sweepMax\<close> their least and greatest value,
  \<open>(rssi - sweepMin) * 15 / max(1, sweepMax - sweepMin)\<close>, levels 1 and 2 raised to 3, and
  0 for an empty or skipped bin.
\<close>

definition sweep_samples :: "(nat \<Rightarrow> u16) \<Rightarrow> int set" where
  "sweep_samples h = (\<lambda>x. uint (h x)) ` {x \<in> {0..<SPECTRUM_MAX_STEPS}. valid_sample (h x)}"

definition quantized_level :: "(nat \<Rightarrow> u16) \<Rightarrow> nat \<Rightarrow> int" where
  "quantized_level h x =
     (if valid_sample (h x) then
        (let lo = Min (sweep_samples h); hi = Max (sweep_samples h);
             q = (uint (h x) - lo) * 15 div max 1 (hi - lo)
         in if 0 < q \<and> q < 3 then 3 else q)
      else 0)"

text \<open>
  The renderer's read \<open>waterfallHistory[x][historyRow]\<close> for the row that is \<open>y_offset\<close>
  pushes old, and a committed push of a sweep whose samples are \<open>h\<close>: \<open>UpdateWaterfall\<close>
  run with \<open>rssiHistory\<close> holding \<open>h\<close>. \<open>pushSweeps\<close> pushes a list of sweeps, oldest
  first.
\<close>

definition wf_read :: "globals \<Rightarrow> nat \<Rightarrow> u8 \<Rightarrow> u8" where
  "wf_read s x y_offset = waterfallHistory s x (nat (historyRow (waterfallIndex s) y_offset))"

definition pushSweep :: "(nat \<Rightarrow> u16) \<Rightarrow> globals \<Rightarrow> globals" where
  "pushSweep h s = UpdateWaterfall (s\<lparr>rssiHistory := h\<rparr>)"

definition pushSweeps :: "(nat \<Rightarrow> u16) list \<Rightarrow> globals \<Rightarrow> globals" where
  "pushSweeps hs s = fold pushSweep hs s"

text \<open>
  A sweep with the samples 100, 300, 180 and 120 in bins 0, 2, 4 and 5, a skipped bin 3 and
  nothing elsewhere.
\<close>

definition sweep_demo :: "nat \<Rightarrow> u16" where
  "sweep_demo k = (if k = 0 then 100 else if k = 2 then 300 else if k = 3 then 65535
                   else if k = 4 then 180 else if k = 5 then 120 else 0)"

definition wf_demo :: globals where
  "wf_demo = (globals_init 12)\<lparr>isListening := False, rssiHistory := sweep_demo\<rparr>"

text \<open>
  Notions for stating the sweep properties. \<open>scan_guard\<close> is the condition of the
  \<open>if\<close> in \<open>Scan\<close>; \<open>sweepDone\<close> says that a call of \<open>UpdateScan\<close> runs past the early
  \<open>return\<close>, that is, completes the sweep; \<open>UpdateScans\<close> is a run of successive calls of
  \<open>UpdateScan\<close>, the \<open>k\<close>-th with the sample \<open>rs ! k\<close>.
\<close>

definition scan_guard :: "build \<Rightarrow> globals \<Rightarrow> bool" where
  "scan_guard b s =
     (rssiHistory s (unat (scan_i (scanInfo s))) \<noteq> RSSI_MAX_VALUE
      \<and> (if ENABLE_SCAN_RANGES b then \<not> IsBlacklisted s (scan_i (scanInfo s)) else True))"

definition sweepDone :: "build \<Rightarrow> extern \<Rightarrow> u16 \<Rightarrow> globals \<Rightarrow> bool" where
  "sweepDone b e rssi s =
     (\<not> scan_i (scanInfo (Scan b e rssi s)) < scan_measurementsCount (scanInfo (Scan b e rssi s)))"

definition UpdateScans :: "build \<Rightarrow> extern \<Rightarrow> u16 list \<Rightarrow> globals \<Rightarrow> globals" where
  "UpdateScans b e rs s = fold (UpdateScan b e) rs s"

text \<open>
  The state of a completing call of \<open>UpdateScan\<close> at its test \<open>IsPeakOverLevel()\<close>: the
  part of \<open>UpdateScan\<close> between the early \<open>return\<close> and that test.
\<close>

definition scan_decision :: "build \<Rightarrow> extern \<Rightarrow> u16 \<Rightarrow> globals \<Rightarrow> globals" where
  "scan_decision b e rssi s =
     (let s1 = Scan b e rssi s;
          mc = scan_measurementsCount (scanInfo s1);
          s2 = (if drop_bit 7 mc = 0
                then s1\<lparr>rssiHistory :=
                          (\<lambda>k. if unat mc \<le> k \<and> k < SPECTRUM_MAX_STEPS then 0
                               else rssiHistory s1 k)\<rparr>
                else s1);
          s3 = s2\<lparr>redrawScreen := True, preventKeypress := False\<rparr>;
          s4 = UpdatePeakInfo s3;
          c = scanWaterfallCounter s4 + 1
      in if c \<ge> 2 then (UpdateWaterfall s4)\<lparr>scanWaterfallCounter := 0\<rparr>
         else s4\<lparr>scanWaterfallCounter := c\<rparr>)"

text \<open>
  A sweep just started by \<open>InitScan\<close> with a given number of bins, and scenario E of the
  specification: the last call of a 64-step sweep, the held peak at 146525000 and the sweep
  itself at 146612500.
\<close>

definition sweep_start :: "StepsCount \<Rightarrow> globals" where
  "sweep_start n =
     InitScan plain_build bench
       ((globals_init 12)\<lparr>isListening := False, currentFreq := 14600000,
                            settings := (settings_init 12)\<lparr>stepsCount := n\<rparr>\<rparr>)"

definition scenario_E :: globals where
  "scenario_E =
     (globals_init 12)\<lparr>isListening := False, newScanStart := False, fMeasure := 146600000,
        peak := \<lparr>peak_t = 5, peak_rssi = 200, peak_f = 146525000, peak_i = 10\<rparr>,
        scanInfo := \<lparr>scan_rssi = 120, scan_rssiMin = 90, scan_rssiMax = 180, scan_i = 64,
                     scan_iPeak = 10, scan_f = 146612500, scan_fPeak = 146525000,
                     scan_scanStep = 2500, scan_measurementsCount = 64\<rparr>\<rparr>"

text \<open>
  A build with scan ranges, and a sweep of 128 bins in which index 128 is on the blacklist
  (\<open>Blacklist()\<close> stores \<open>peak.i\<close>, which is 128 when the strongest sample of a sweep was
  the one of its completing call).
\<close>

definition range_build :: build where
  "range_build = plain_build\<lparr>ENABLE_SCAN_RANGES := True\<rparr>"

definition sweep_blacklisted :: globals where
  "sweep_blacklisted =
     (sweep_start STEPS_128)\<lparr>blacklistFreqs := 128 # replicate 14 0, blacklistFreqsIdx := 1\<rparr>"

text \<open>A locked receiver with trigger level 150 whose listen timer has run out.\<close>

definition lock_demo :: globals where
  "lock_demo =
     (globals_init 12)\<lparr>newScanStart := False, fMeasure := 146525000,
        peak := \<lparr>peak_t = 6, peak_rssi = 200, peak_f = 146525000, peak_i = 10\<rparr>,
        scanInfo := \<lparr>scan_rssi = 200, scan_rssiMin = 90, scan_rssiMax = 180, scan_i = 10,
                     scan_iPeak = 10, scan_f = 146525000, scan_fPeak = 146525000,
                     scan_scanStep = 2500, scan_measurementsCount = 64\<rparr>\<rparr>"

section \<open>Machine arithmetic\<close>

lemma uint_to_u16: "uint (to_u16 x) = x mod 65536"
  by (simp add: to_u16_def uint_word_of_int)

lemma uint_to_u16_id: "0 \<le> x \<Longrightarrow> x < 65536 \<Longrightarrow> uint (to_u16 x) = x"
  by (simp add: uint_to_u16)

lemma to_u16_uint: "to_u16 (uint w) = w"
  by (simp add: to_u16_def)

lemma uint_u16_bounds: "0 \<le> uint (w :: u16) \<and> uint w < 65536"
  using uint_lt2p [of w] by simp

lemma to_i16_signed: "to_i16 x = signed_take_bit 15 x"
  by (simp add: to_i16_def sint_sbintrunc')

lemma to_i16_small: "0 \<le> x \<Longrightarrow> x < 32768 \<Longrightarrow> to_i16 x = x"
  by (simp add: to_i16_signed signed_take_bit_int_eq_self)

lemma to_i16_big:
  assumes "32768 \<le> x" "x < 65536"
  shows "to_i16 x = x - 65536"
proof -
  have "take_bit 16 (x - 65536) = take_bit 16 x"
    by (simp add: take_bit_eq_mod)
  then have "signed_take_bit 15 x = signed_take_bit 15 (x - 65536)"
    by (simp add: signed_take_bit_eq_iff_take_bit_eq)
  also have "\<dots> = x - 65536"
    using assms by (simp add: signed_take_bit_int_eq_self)
  finally show ?thesis by (simp add: to_i16_signed)
qed

lemma sint_diff_u16: "to_i16 (sint (a::u16) - sint (b::u16)) = to_i16 (uint a - uint b)"
proof -
  have "(word_of_int (sint a - sint b) :: u16) = word_of_int (uint a - uint b)"
    by (simp add: wi_hom_sub [symmetric])
  then show ?thesis by (simp add: to_i16_def)
qed

section \<open>The ramp of the trigger level\<close>

lemma ramp_step_bounds:
  assumes "0 < g" "g < 65536"
  shows "1 \<le> ramp_step (to_i16 g) \<and> ramp_step (to_i16 g) \<le> 3 \<and> ramp_step (to_i16 g) \<le> g"
proof (cases "g < 32768")
  case True
  with assms have "to_i16 g = g" by (simp add: to_i16_small)
  with assms show ?thesis by (simp add: ramp_step_def)
next
  case False
  with assms have "to_i16 g = g - 65536" by (simp add: to_i16_big)
  with assms False show ?thesis by (simp add: ramp_step_def)
qed

lemma trigger_set: "rssiTriggerLevel (settings (set_rssiTriggerLevel v s)) = v"
  by (simp add: set_rssiTriggerLevel_def)

lemma AutoTriggerLevel_unarmed:
  assumes ns: "rssiTriggerLevel (settings s) \<noteq> RSSI_MAX_VALUE"
  shows "AutoTriggerLevel s =
     (let t = uint (rssiTriggerLevel (settings s));
          m = uint (scan_rssiMax (scanInfo s));
          nt0 = to_u16 (clamp (m + 8) 0 (uint RSSI_MAX_VALUE));
          mt = to_u16 (m + 15);
          nt = (if nt0 < mt then mt else nt0) in
      if nt > rssiTriggerLevel (settings s) then
        (let T1 = to_u16 (t + ramp_step (to_i16 (uint nt - t)))
         in set_rssiTriggerLevel (if T1 > nt then nt else T1) s)
      else if uint nt < t - 4 then
        (let T1 = to_u16 (t - ramp_step (to_i16 (t - uint nt)))
         in set_rssiTriggerLevel (if T1 < nt then nt else T1) s)
      else s)"
  unfolding AutoTriggerLevel_def Let_def sint_diff_u16
  using ns by (simp only: if_False)

lemma ramp_value:
  assumes ns: "rssiTriggerLevel (settings s) \<noteq> RSSI_MAX_VALUE"
    and mx: "uint (scan_rssiMax (scanInfo s)) \<le> 65520"
  shows "uint (rssiTriggerLevel (settings (AutoTriggerLevel s))) =
     (let t = uint (rssiTriggerLevel (settings s)); tgt = uint (scan_rssiMax (scanInfo s)) + 15
      in if t < tgt then t + ramp_step (to_i16 (tgt - t))
         else if tgt < t - 4 then t - ramp_step (to_i16 (t - tgt))
         else t)"
proof -
  define t where "t = uint (rssiTriggerLevel (settings s))"
  define m where "m = uint (scan_rssiMax (scanInfo s))"
  have tb: "0 \<le> t" "t < 65536" using uint_u16_bounds [of "rssiTriggerLevel (settings s)"] by (simp_all add: t_def)
  have mb: "0 \<le> m" "m \<le> 65520" using mx by (simp_all add: m_def)
  define nt0 where "nt0 = to_u16 (clamp (m + 8) 0 (uint RSSI_MAX_VALUE))"
  define mt where "mt = to_u16 (m + 15)"
  define nt where "nt = (if nt0 < mt then mt else nt0)"
  have nt0: "uint nt0 = m + 8" using mb by (simp add: nt0_def clamp_def RSSI_MAX_VALUE_def uint_to_u16_id)
  have mt: "uint mt = m + 15" using mb by (simp add: mt_def uint_to_u16_id)
  have nt: "uint nt = m + 15" by (simp add: nt_def word_less_alt nt0 mt)
  have unf: "AutoTriggerLevel s =
     (if nt > rssiTriggerLevel (settings s) then
        (let T1 = to_u16 (t + ramp_step (to_i16 (uint nt - t)))
         in set_rssiTriggerLevel (if T1 > nt then nt else T1) s)
      else if uint nt < t - 4 then
        (let T1 = to_u16 (t - ramp_step (to_i16 (t - uint nt)))
         in set_rssiTriggerLevel (if T1 < nt then nt else T1) s)
      else s)"
    unfolding AutoTriggerLevel_unarmed [OF ns] Let_def nt_def nt0_def mt_def m_def t_def ..
  show ?thesis
  proof (cases "t < m + 15")
    case True
    from True tb mb have g: "0 < m + 15 - t" "m + 15 - t < 65536" by simp_all
    note b = ramp_step_bounds [OF g]
    have u: "uint (to_u16 (t + ramp_step (to_i16 (m + 15 - t)))) = t + ramp_step (to_i16 (m + 15 - t))"
      using b tb mb True by (intro uint_to_u16_id) simp_all
    have "nt > rssiTriggerLevel (settings s)" using True by (simp add: word_less_alt nt t_def)
    then show ?thesis
      using True b u
      by (simp add: unf Let_def word_less_alt nt trigger_set t_def [symmetric] m_def [symmetric])
  next
    case False
    then have nup: "\<not> nt > rssiTriggerLevel (settings s)" by (simp add: word_less_alt nt t_def)
    show ?thesis
    proof (cases "m + 15 < t - 4")
      case dn: True
      from dn tb mb have g: "0 < t - (m + 15)" "t - (m + 15) < 65536" by simp_all
      note b = ramp_step_bounds [OF g]
      have u: "uint (to_u16 (t - ramp_step (to_i16 (t - (m + 15))))) = t - ramp_step (to_i16 (t - (m + 15)))"
        using b tb mb dn by (intro uint_to_u16_id) simp_all
      show ?thesis
        using False dn b u nup
        by (simp add: unf Let_def word_less_alt nt trigger_set t_def [symmetric] m_def [symmetric])
    next
      case hold: False
      show ?thesis
        using False hold nup
        by (simp add: unf Let_def nt t_def [symmetric] m_def [symmetric])
    qed
  qed
qed

section \<open>Calibration round trip\<close>

lemma Rssi2DBm_fits_int:
  "- 128 \<le> dBmCorr e \<Longrightarrow> dBmCorr e \<le> 127 \<Longrightarrow> - 288 \<le> Rssi2DBm e r \<and> Rssi2DBm e r \<le> 32734"
proof -
  have "0 \<le> uint r div 2" "uint r div 2 \<le> 32767"
    using uint_u16_bounds [of r] by arith+
  then show "- 128 \<le> dBmCorr e \<Longrightarrow> dBmCorr e \<le> 127 \<Longrightarrow> ?thesis"
    unfolding Rssi2DBm_def by linarith
qed

lemma dbm2rssi_arg_fits_int:
  "- 128 \<le> dBmCorr e \<Longrightarrow> dBmCorr e \<le> 127 \<Longrightarrow>
   \<bar>(Rssi2DBm e r + 160 - dBmCorr e) * 2\<bar> < 2 ^ 31"
proof -
  have "0 \<le> uint r div 2" "uint r div 2 \<le> 32767"
    using uint_u16_bounds [of r] by arith+
  then show ?thesis
    unfolding Rssi2DBm_def by simp
qed

text \<open>
  C10. For every raw RSSI value and every calibration offset, converting to dBm with
  \<open>Rssi2DBm\<close> and back with \<open>dbm2rssi\<close> gives the value again within one unit: the
  result is the value with its lowest bit cleared, the only loss being the halving in
  \<open>Rssi2DBm\<close>.
\<close>

theorem calibration_round_trip:
  "uint (dbm2rssi e (Rssi2DBm e rssi)) = uint rssi - uint rssi mod 2
   \<and> uint rssi - 1 \<le> uint (dbm2rssi e (Rssi2DBm e rssi))
   \<and> uint (dbm2rssi e (Rssi2DBm e rssi)) \<le> uint rssi"
proof -
  have b: "0 \<le> uint rssi" "uint rssi < 65536" using uint_u16_bounds [of rssi] by simp_all
  have "(Rssi2DBm e rssi + 160 - dBmCorr e) * 2 = uint rssi div 2 * 2"
    by (simp add: Rssi2DBm_def)
  also have "\<dots> = uint rssi - uint rssi mod 2"
    by (simp add: minus_mod_eq_div_mult)
  finally have eq: "(Rssi2DBm e rssi + 160 - dBmCorr e) * 2 = uint rssi - uint rssi mod 2" .
  have m: "0 \<le> uint rssi mod 2" "uint rssi mod 2 \<le> 1" "uint rssi mod 2 \<le> uint rssi"
    using b by (simp_all add: zmod_le_nonneg_dividend) 
  have "uint (dbm2rssi e (Rssi2DBm e rssi)) = uint rssi - uint rssi mod 2"
    unfolding dbm2rssi_def eq using b m by (intro uint_to_u16_id) simp_all
  then show ?thesis using m by simp
qed

text \<open>At offset 0 the raw value 301 is - 10 dBm and comes back as 300.\<close>

theorem calibration_round_trip_witness:
  "uint (dbm2rssi bench (Rssi2DBm bench 301)) = 300 \<and> Rssi2DBm bench 301 = - 10"
  using calibration_round_trip [of bench 301] by (simp add: Rssi2DBm_def bench_def)

section \<open>Held peak\<close>

lemma peak_AutoTriggerLevel: "peak (AutoTriggerLevel s) = peak s"
  by (simp add: AutoTriggerLevel_def Let_def set_rssiTriggerLevel_def)

text \<open>
  C3. On a completed sweep \<open>UpdatePeakInfo\<close> refreshes the held peak (value, frequency
  and bin index taken from the sweep maximum, age set to 0) exactly when the peak is
  uninitialised (\<open>peak.f = 0\<close>), or its age has reached 1024, or the sweep maximum is
  strictly greater than the held value; otherwise the held peak is unchanged but for its
  age, which grows by one.
\<close>

theorem UpdatePeakInfo_policy:
  "(if peak_f (peak s) = 0 \<or> peak_t (peak s) \<ge> 1024
       \<or> scan_rssiMax (scanInfo s) > peak_rssi (peak s)
    then peak (UpdatePeakInfo s)
           = \<lparr>peak_t = 0, peak_rssi = scan_rssiMax (scanInfo s),
              peak_f = scan_fPeak (scanInfo s), peak_i = scan_iPeak (scanInfo s)\<rparr>
    else peak (UpdatePeakInfo s) = (peak s)\<lparr>peak_t := peak_t (peak s) + 1\<rparr>
         \<and> uint (peak_t (peak (UpdatePeakInfo s))) = uint (peak_t (peak s)) + 1)
   \<and> (peak_t (peak (UpdatePeakInfo s)) = 0
        \<longleftrightarrow> (peak_f (peak s) = 0 \<or> peak_t (peak s) \<ge> 1024
             \<or> scan_rssiMax (scanInfo s) > peak_rssi (peak s)))"
proof (cases "peak_f (peak s) = 0 \<or> peak_t (peak s) \<ge> 1024
       \<or> scan_rssiMax (scanInfo s) > peak_rssi (peak s)")
  case True
  then show ?thesis
    by (simp add: UpdatePeakInfo_def UpdatePeakInfoForce_def peak_AutoTriggerLevel)
next
  case False
  then have lt: "uint (peak_t (peak s)) < 1024" by (simp add: word_le_def not_le)
  have "uint (peak_t (peak s) + 1) = uint (peak_t (peak s)) + 1"
    using lt uint_u16_bounds [of "peak_t (peak s)"]
    by (simp add: uint_word_ariths)
  then have u: "uint (peak_t (peak s) + 1) = uint (peak_t (peak s)) + 1" .
  have "peak_t (peak s) + 1 \<noteq> 0"
  proof
    assume "peak_t (peak s) + 1 = 0"
    then have "uint (peak_t (peak s) + 1) = 0" by simp
    with u uint_u16_bounds [of "peak_t (peak s)"] show False by simp
  qed
  with u show ?thesis using False
    by (simp add: UpdatePeakInfo_def)
qed


text \<open>
  Scenario C: at age 1024 the peak is refreshed although the signal did not change; at
  age 1023 it is kept and its age becomes 1024.
\<close>

theorem UpdatePeakInfo_policy_witness:
  "peak (UpdatePeakInfo peak_demo)
     = \<lparr>peak_t = 0, peak_rssi = 200, peak_f = 146525000, peak_i = 10\<rparr>
   \<and> peak (UpdatePeakInfo (peak_demo\<lparr>peak := (peak peak_demo)\<lparr>peak_t := 1023\<rparr>\<rparr>))
     = \<lparr>peak_t = 1024, peak_rssi = 200, peak_f = 146525000, peak_i = 10\<rparr>"
  using UpdatePeakInfo_policy [of peak_demo]
    UpdatePeakInfo_policy [of "peak_demo\<lparr>peak := (peak peak_demo)\<lparr>peak_t := 1023\<rparr>\<rparr>"]
  by (simp add: peak_demo_def globals_init_def)

section \<open>Trigger level and display range\<close>

lemma clamp_between: "lo \<le> hi \<Longrightarrow> lo \<le> clamp v lo hi \<and> clamp v lo hi \<le> hi"
  by (simp add: clamp_def)

lemma ClampRssiTriggerLevel_between:
  assumes "dbm2rssi e (dbMin (settings s)) \<le> dbm2rssi e (dbMax (settings s))"
  shows "dbm2rssi e (dbMin (settings s)) \<le> rssiTriggerLevel (settings (ClampRssiTriggerLevel e s))
       \<and> rssiTriggerLevel (settings (ClampRssiTriggerLevel e s)) \<le> dbm2rssi e (dbMax (settings s))"
proof -
  define lo where "lo = uint (dbm2rssi e (dbMin (settings s)))"
  define hi where "hi = uint (dbm2rssi e (dbMax (settings s)))"
  define c where "c = clamp (uint (rssiTriggerLevel (settings s))) lo hi"
  have le: "lo \<le> hi" using assms by (simp add: lo_def hi_def word_le_def)
  have b: "0 \<le> lo" "hi < 65536"
    using uint_u16_bounds [of "dbm2rssi e (dbMin (settings s))"]
      uint_u16_bounds [of "dbm2rssi e (dbMax (settings s))"] by (simp_all add: lo_def hi_def)
  from clamp_between [OF le] have cb: "lo \<le> c" "c \<le> hi" by (simp_all add: c_def)
  with b have "uint (to_u16 c) = c" by (intro uint_to_u16_id) simp_all
  with cb show ?thesis
    by (simp add: ClampRssiTriggerLevel_def trigger_set word_le_def c_def lo_def hi_def)
qed

lemma set_rssiTriggerLevel_db:
  "dbMin (settings (set_rssiTriggerLevel v s)) = dbMin (settings s)"
  "dbMax (settings (set_rssiTriggerLevel v s)) = dbMax (settings s)"
  by (simp_all add: set_rssiTriggerLevel_def)

lemma UpdateRssiTriggerLevel_trigger:
  "rssiTriggerLevel (settings (UpdateRssiTriggerLevel e inc s)) =
   rssiTriggerLevel (settings (ClampRssiTriggerLevel e
      (set_rssiTriggerLevel (if inc then rssiTriggerLevel (settings s) + 2
                             else rssiTriggerLevel (settings s) - 2) s)))"
  by (simp add: UpdateRssiTriggerLevel_def Let_def)

lemma AutoTriggerLevel_ignores_display_range:
  "rssiTriggerLevel (settings (AutoTriggerLevel
       (s\<lparr>settings := (settings s)\<lparr>dbMin := a, dbMax := b\<rparr>\<rparr>)))
   = rssiTriggerLevel (settings (AutoTriggerLevel s))"
  by (simp add: AutoTriggerLevel_def Let_def set_rssiTriggerLevel_def)

text \<open>
  C1, as the code has it. \<open>ClampRssiTriggerLevel\<close>, which the key handler
  \<open>UpdateRssiTriggerLevel\<close> runs, puts the trigger level into
  \<open>[dbm2rssi dbMin, dbm2rssi dbMax]\<close> whenever that interval is not empty. The value that
  \<open>AutoTriggerLevel\<close> assigns does not depend on \<open>dbMin\<close> and \<open>dbMax\<close>: its only clamp
  is to the 16-bit range \<open>[0, RSSI_MAX_VALUE]\<close>.
\<close>

theorem trigger_clamp_on_key_only:
  assumes "dbm2rssi e (dbMin (settings s)) \<le> dbm2rssi e (dbMax (settings s))"
  shows "dbm2rssi e (dbMin (settings s)) \<le> rssiTriggerLevel (settings (ClampRssiTriggerLevel e s))
       \<and> rssiTriggerLevel (settings (ClampRssiTriggerLevel e s)) \<le> dbm2rssi e (dbMax (settings s))
       \<and> dbm2rssi e (dbMin (settings s)) \<le> rssiTriggerLevel (settings (UpdateRssiTriggerLevel e inc s))
       \<and> rssiTriggerLevel (settings (UpdateRssiTriggerLevel e inc s)) \<le> dbm2rssi e (dbMax (settings s))
       \<and> rssiTriggerLevel (settings (AutoTriggerLevel
             (s\<lparr>settings := (settings s)\<lparr>dbMin := a, dbMax := b\<rparr>\<rparr>)))
           = rssiTriggerLevel (settings (AutoTriggerLevel s))"
proof -
  let ?s1 = "set_rssiTriggerLevel (if inc then rssiTriggerLevel (settings s) + 2
                             else rssiTriggerLevel (settings s) - 2) s"
  have "dbm2rssi e (dbMin (settings ?s1)) \<le> dbm2rssi e (dbMax (settings ?s1))"
    using assms by (simp add: set_rssiTriggerLevel_db)
  from ClampRssiTriggerLevel_between [OF this] ClampRssiTriggerLevel_between [OF assms]
  show ?thesis
    by (simp add: UpdateRssiTriggerLevel_trigger set_rssiTriggerLevel_db
        AutoTriggerLevel_ignores_display_range)
qed

text \<open>With the display range [100, 220] a trigger level of 320 is brought back to 220.\<close>

theorem trigger_clamp_on_key_only_witness:
  "dbm2rssi bench (- 110) = 100 \<and> dbm2rssi bench (- 50) = 220
   \<and> rssiTriggerLevel (settings (ClampRssiTriggerLevel bench
        (set_rssiTriggerLevel 320 scenario_A))) = 220
   \<and> rssiTriggerLevel (settings (UpdateRssiTriggerLevel bench True
        (set_rssiTriggerLevel 320 scenario_A))) = 220"
  using trigger_clamp_on_key_only [of bench "set_rssiTriggerLevel 320 scenario_A" True 0 0]
  by (simp add: scenario_A_def globals_init_def settings_init_def bench_def dbm2rssi_def
      to_u16_def set_rssiTriggerLevel_def ClampRssiTriggerLevel_def
      UpdateRssiTriggerLevel_def clamp_def Let_def DISPLAY_DBM_MAX_def)

text \<open>
  C1 fails as stated. In scenario A (sweep minimum 100, maximum 300, trigger level the
  sentinel) \<open>AutoTriggerLevel\<close> assigns 320, above \<open>dbm2rssi dbMax = 220\<close>; and from a
  trigger level of 219 inside the range it assigns 222.
\<close>

theorem AutoTriggerLevel_leaves_display_range:
  "rssiTriggerLevel (settings (AutoTriggerLevel scenario_A)) = 320
   \<and> dbm2rssi bench (dbMin (settings (AutoTriggerLevel scenario_A))) = 100
   \<and> dbm2rssi bench (dbMax (settings (AutoTriggerLevel scenario_A))) = 220
   \<and> rssiTriggerLevel (settings (AutoTriggerLevel
        (set_rssiTriggerLevel 219 scenario_A))) = 222"
  by (simp add: scenario_A_def globals_init_def settings_init_def bench_def dbm2rssi_def
      to_u16_def to_i16_def set_rssiTriggerLevel_def AutoTriggerLevel_def clamp_def Let_def
      RSSI_MAX_VALUE_def DISPLAY_DBM_MAX_def ramp_step_def)

text \<open>
  The same holds whatever the calibration offset of the band is, as long as the default
  \<open>dbMax\<close> of - 50 dBm maps to a value that has not wrapped (offset at most 110): a sweep
  maximum of 500 arms the trigger level at 520, above \<open>dbm2rssi dbMax\<close>.
\<close>

lemma arming_above_display_range:
  assumes "rssiTriggerLevel (settings s) = RSSI_MAX_VALUE"
    and "scan_rssiMax (scanInfo s) = 500"
    and "- 128 \<le> dBmCorr e" and "dBmCorr e \<le> 110"
  shows "dbm2rssi e DISPLAY_DBM_MAX < rssiTriggerLevel (settings (AutoTriggerLevel s))"
proof -
  have t: "rssiTriggerLevel (settings (AutoTriggerLevel s)) = 520"
    using assms(1,2)
    by (simp add: AutoTriggerLevel_def Let_def trigger_set to_u16_def clamp_def
        RSSI_MAX_VALUE_def)
  have b: "0 \<le> (DISPLAY_DBM_MAX + 160 - dBmCorr e) * 2"
    "(DISPLAY_DBM_MAX + 160 - dBmCorr e) * 2 \<le> 476"
    using assms(3,4) by (simp_all add: DISPLAY_DBM_MAX_def)
  then have "uint (dbm2rssi e DISPLAY_DBM_MAX) = (DISPLAY_DBM_MAX + 160 - dBmCorr e) * 2"
    unfolding dbm2rssi_def by (intro uint_to_u16_id) simp_all
  with b show ?thesis by (simp add: t word_less_alt)
qed

lemma ramp_step_i16:
  assumes "0 < g" "g < 65536"
  shows "ramp_step (to_i16 g) = (if g < 32768 then ramp_step g else 1)"
proof (cases "g < 32768")
  case True
  with assms show ?thesis by (simp add: to_i16_small)
next
  case False
  with assms have "to_i16 g = g - 65536" by (simp add: to_i16_big)
  with assms False show ?thesis by (simp add: ramp_step_def)
qed

text \<open>
  C4, as the code has it. When the trigger level is not the sentinel (and the sweep
  maximum is at most 65520, so that nothing wraps), \<open>AutoTriggerLevel\<close> moves it towards
  the target \<open>rssiMax + 15\<close>: up when the target is above it, down when the target is
  more than 4 below it, and not at all otherwise. With the gap the distance between the
  level and the target, the step is 3 for a gap of 7 to 32767, 2 for a gap of 4 to 6 and 1
  for a gap of 1 to 3; for a gap of 32768 or more it is 1 again, the \<open>int16_t\<close> that the
  code stores the gap in being negative there. The level changes by at most 3 and never
  passes the target.
\<close>

theorem AutoTriggerLevel_ramp:
  assumes "rssiTriggerLevel (settings s) \<noteq> RSSI_MAX_VALUE"
    and "uint (scan_rssiMax (scanInfo s)) \<le> 65520"
  shows "uint (rssiTriggerLevel (settings (AutoTriggerLevel s))) =
     (let t = uint (rssiTriggerLevel (settings s)); tgt = uint (scan_rssiMax (scanInfo s)) + 15
      in if t < tgt then t + (if tgt - t < 32768 then ramp_step (tgt - t) else 1)
         else if tgt < t - 4 then t - (if t - tgt < 32768 then ramp_step (t - tgt) else 1)
         else t)
    \<and> \<bar>uint (rssiTriggerLevel (settings (AutoTriggerLevel s)))
         - uint (rssiTriggerLevel (settings s))\<bar> \<le> 3
    \<and> min (uint (rssiTriggerLevel (settings s))) (uint (scan_rssiMax (scanInfo s)) + 15)
         \<le> uint (rssiTriggerLevel (settings (AutoTriggerLevel s)))
    \<and> uint (rssiTriggerLevel (settings (AutoTriggerLevel s)))
         \<le> max (uint (rssiTriggerLevel (settings s))) (uint (scan_rssiMax (scanInfo s)) + 15)"
proof -
  define t where "t = uint (rssiTriggerLevel (settings s))"
  define m where "m = uint (scan_rssiMax (scanInfo s))"
  have tb: "0 \<le> t" "t < 65536"
    using uint_u16_bounds [of "rssiTriggerLevel (settings s)"] by (simp_all add: t_def)
  have mb: "0 \<le> m" "m \<le> 65520" using assms(2) by (simp_all add: m_def)
  note v = ramp_value [OF assms, unfolded Let_def, folded t_def m_def]
  show ?thesis
  proof (cases "t < m + 15")
    case True
    from True tb mb have g: "0 < m + 15 - t" "m + 15 - t < 65536" by simp_all
    have v': "uint (rssiTriggerLevel (settings (AutoTriggerLevel s)))
              = t + ramp_step (to_i16 (m + 15 - t))"
      using v True by simp
    note bd = ramp_step_bounds [OF g]
    note st = ramp_step_i16 [OF g]
    have e: "uint (rssiTriggerLevel (settings (AutoTriggerLevel s)))
              = t + (if m + 15 - t < 32768 then ramp_step (m + 15 - t) else 1)"
      by (simp only: v' st)
    from bd v' have r: "t < uint (rssiTriggerLevel (settings (AutoTriggerLevel s)))"
        "uint (rssiTriggerLevel (settings (AutoTriggerLevel s))) \<le> t + 3"
        "uint (rssiTriggerLevel (settings (AutoTriggerLevel s))) \<le> m + 15"
      by simp_all
    have c1: "uint (rssiTriggerLevel (settings (AutoTriggerLevel s))) =
       (let t = uint (rssiTriggerLevel (settings s)); tgt = uint (scan_rssiMax (scanInfo s)) + 15
        in if t < tgt then t + (if tgt - t < 32768 then ramp_step (tgt - t) else 1)
           else if tgt < t - 4 then t - (if t - tgt < 32768 then ramp_step (t - tgt) else 1)
           else t)"
      using True e by (simp add: Let_def t_def [symmetric] m_def [symmetric])
    from r True have c2:
      "\<bar>uint (rssiTriggerLevel (settings (AutoTriggerLevel s))) - t\<bar> \<le> 3
       \<and> min t (m + 15) \<le> uint (rssiTriggerLevel (settings (AutoTriggerLevel s)))
       \<and> uint (rssiTriggerLevel (settings (AutoTriggerLevel s))) \<le> max t (m + 15)"
      by simp
    from c1 c2 show ?thesis by (simp only: t_def m_def)
  next
    case False
    show ?thesis
    proof (cases "m + 15 < t - 4")
      case dn: True
      from dn tb mb have g: "0 < t - (m + 15)" "t - (m + 15) < 65536" by simp_all
      have v': "uint (rssiTriggerLevel (settings (AutoTriggerLevel s)))
                = t - ramp_step (to_i16 (t - (m + 15)))"
        using v False dn by simp
      note bd = ramp_step_bounds [OF g]
      note st = ramp_step_i16 [OF g]
      have e: "uint (rssiTriggerLevel (settings (AutoTriggerLevel s)))
                = t - (if t - (m + 15) < 32768 then ramp_step (t - (m + 15)) else 1)"
        by (simp only: v' st)
      from bd v' have r: "uint (rssiTriggerLevel (settings (AutoTriggerLevel s))) < t"
          "t - 3 \<le> uint (rssiTriggerLevel (settings (AutoTriggerLevel s)))"
          "m + 15 \<le> uint (rssiTriggerLevel (settings (AutoTriggerLevel s)))"
        by simp_all
      have c1: "uint (rssiTriggerLevel (settings (AutoTriggerLevel s))) =
         (let t = uint (rssiTriggerLevel (settings s)); tgt = uint (scan_rssiMax (scanInfo s)) + 15
          in if t < tgt then t + (if tgt - t < 32768 then ramp_step (tgt - t) else 1)
             else if tgt < t - 4 then t - (if t - tgt < 32768 then ramp_step (t - tgt) else 1)
             else t)"
        using False dn e by (simp add: Let_def t_def [symmetric] m_def [symmetric])
      from r dn have c2:
        "\<bar>uint (rssiTriggerLevel (settings (AutoTriggerLevel s))) - t\<bar> \<le> 3
         \<and> min t (m + 15) \<le> uint (rssiTriggerLevel (settings (AutoTriggerLevel s)))
         \<and> uint (rssiTriggerLevel (settings (AutoTriggerLevel s))) \<le> max t (m + 15)"
        by simp
      from c1 c2 show ?thesis by (simp only: t_def m_def)
    next
      case hold: False
      with v False show ?thesis
        by (simp add: Let_def t_def [symmetric] m_def [symmetric])
    qed
  qed
qed

text \<open>
  In scenario B the target is 165, the gap 15 and the step 3. From 60000 with a sweep
  maximum of 100 the gap is 59885 and the step 1.
\<close>

theorem AutoTriggerLevel_ramp_witness:
  "rssiTriggerLevel (settings scenario_B) = 150 \<and> scan_rssiMax (scanInfo scenario_B) = 150
   \<and> uint (rssiTriggerLevel (settings (AutoTriggerLevel scenario_B))) = 153
   \<and> rssiTriggerLevel (settings wide_gap) = 60000 \<and> scan_rssiMax (scanInfo wide_gap) = 100
   \<and> uint (rssiTriggerLevel (settings (AutoTriggerLevel wide_gap))) = 59999"
  using AutoTriggerLevel_ramp [of scenario_B] AutoTriggerLevel_ramp [of wide_gap]
  by (simp add: scenario_B_def wide_gap_def globals_init_def settings_init_def
      RSSI_MAX_VALUE_def ramp_step_def Let_def)

text \<open>
  C4 fails as stated. In scenario B, trigger level 150 and noise floor 150, so that the
  noise floor plus 12 is 162, one update gives 153, not 152. It gives 153 as well when it is
  the target of the code, the sweep maximum plus 15, that is 162.
\<close>

theorem ramp_from_150_to_162_gives_153:
  "rssiTriggerLevel (settings scenario_B) = 150
   \<and> uint (scan_rssiMin (scanInfo scenario_B)) + 12 = 162
   \<and> rssiTriggerLevel (settings (AutoTriggerLevel scenario_B)) = 153
   \<and> rssiTriggerLevel (settings (AutoTriggerLevel scenario_B)) \<noteq> 152
   \<and> rssiTriggerLevel (settings scenario_B_147) = 150
   \<and> uint (scan_rssiMax (scanInfo scenario_B_147)) + 15 = 162
   \<and> rssiTriggerLevel (settings (AutoTriggerLevel scenario_B_147)) = 153"
  by (simp add: scenario_B_def scenario_B_147_def globals_init_def settings_init_def to_u16_def
      to_i16_def set_rssiTriggerLevel_def AutoTriggerLevel_def clamp_def Let_def
      RSSI_MAX_VALUE_def ramp_step_def)

section \<open>RSSI acquisition never times out\<close>








section \<open>Waterfall\<close>

lemma unat_u16_succ: "unat (w :: u16) < 65535 \<Longrightarrow> unat (w + 1) = Suc (unat w)"
  by (simp add: unat_word_ariths)

lemma wf_inv_init: "wf_inv h 0 \<lparr>minRssi = 65535, maxRssi = 0, sumRssi = 0, validSamples = 0\<rparr>"
  by (simp add: wf_inv_def)

lemma u16_top: "(65535 :: u16) \<le> w \<Longrightarrow> w = 65535"
proof -
  assume "(65535 :: u16) \<le> w"
  then have "65535 \<le> uint w" by (simp add: word_le_def)
  with uint_u16_bounds [of w] have "uint w = uint (65535 :: u16)" by simp
  then show ?thesis by (simp only: word_uint_eq_iff)
qed

lemma ex_less_Suc_skip: "\<not> P n \<Longrightarrow> (\<exists>x<Suc n. P x \<and> Q x) = (\<exists>x<n. P x \<and> Q x)"
  by (auto simp: less_Suc_eq)

lemma all_less_Suc_skip: "\<not> P n \<Longrightarrow> (\<forall>x<Suc n. P x \<longrightarrow> Q x) = (\<forall>x<n. P x \<longrightarrow> Q x)"
  by (auto simp: less_Suc_eq)

lemma wf_inv_skip:
  assumes "wf_inv h n st" "\<not> valid_sample (h n)"
  shows "wf_inv h (Suc n) (wf_analyze_step h n st)"
proof -
  have st: "wf_analyze_step h n st = st"
    using assms(2) by (auto simp: wf_analyze_step_def valid_sample_def Let_def)
  have ex: "(\<exists>x<Suc n. valid_sample (h x)) = (\<exists>x<n. valid_sample (h x))"
    using assms(2) by (auto simp: less_Suc_eq)
  from assms(1) have "unat (validSamples st) \<le> Suc n" by (simp add: wf_inv_def)
  with assms(1) show ?thesis
    unfolding st wf_inv_def ex
      ex_less_Suc_skip [of "\<lambda>x. valid_sample (h x)", OF assms(2)]
      all_less_Suc_skip [of "\<lambda>x. valid_sample (h x)", OF assms(2)]
    by simp
qed

lemma wf_inv_count:
  assumes "wf_inv h n st" "valid_sample (h n)" "n < 128"
  shows "wf_inv h (Suc n) (wf_analyze_step h n st)"
proof -
  let ?r = "h n"
  let ?st = "wf_analyze_step h n st"
  have mn: "minRssi ?st = (if ?r < minRssi st then ?r else minRssi st)"
    and mx: "maxRssi ?st = (if ?r > maxRssi st then ?r else maxRssi st)"
    and vs: "validSamples ?st = validSamples st + 1"
    using assms(2) by (simp_all add: wf_analyze_step_def valid_sample_def Let_def)
  from assms(1) have cnt: "unat (validSamples st) \<le> n" by (simp add: wf_inv_def)
  with assms(3) have u: "unat (validSamples st + 1) = Suc (unat (validSamples st))"
    by (intro unat_u16_succ) simp
  then have nz: "validSamples st + 1 \<noteq> 0" by (metis Zero_not_Suc unat_0)
  have ex: "\<exists>x<Suc n. valid_sample (h x)" using assms(2) by blast
  have bounds: "\<forall>x<Suc n. valid_sample (h x) \<longrightarrow> minRssi ?st \<le> h x \<and> h x \<le> maxRssi ?st"
  proof (intro allI impI)
    fix x assume x: "x < Suc n" and v: "valid_sample (h x)"
    show "minRssi ?st \<le> h x \<and> h x \<le> maxRssi ?st"
    proof (cases "x = n")
      case True
      then show ?thesis by (simp add: mn mx not_less)
    next
      case False
      with x have "x < n" by simp
      with assms(1) v have "minRssi st \<le> h x \<and> h x \<le> maxRssi st" by (simp add: wf_inv_def)
      then show ?thesis by (auto simp: mn mx)
    qed
  qed
  have exmin: "\<exists>x<Suc n. valid_sample (h x) \<and> h x = minRssi ?st"
  proof (cases "?r < minRssi st")
    case True
    with assms(2) show ?thesis by (intro exI [of _ n]) (simp add: mn)
  next
    case False
    have "\<exists>x<n. valid_sample (h x)"
    proof (rule ccontr)
      assume "\<not> (\<exists>x<n. valid_sample (h x))"
      with assms(1) have "minRssi st = 65535" by (simp add: wf_inv_def)
      with False have "?r = 65535" by (simp add: not_less u16_top)
      with assms(2) show False by (simp add: valid_sample_def RSSI_MAX_VALUE_def)
    qed
    with assms(1) obtain x where "x < n" "valid_sample (h x)" "h x = minRssi st"
      by (auto simp: wf_inv_def)
    with False show ?thesis by (intro exI [of _ x]) (simp add: mn)
  qed
  have exmax: "\<exists>x<Suc n. valid_sample (h x) \<and> h x = maxRssi ?st"
  proof (cases "?r > maxRssi st")
    case True
    with assms(2) show ?thesis by (intro exI [of _ n]) (simp add: mx)
  next
    case False
    have "\<exists>x<n. valid_sample (h x)"
    proof (rule ccontr)
      assume "\<not> (\<exists>x<n. valid_sample (h x))"
      with assms(1) have "maxRssi st = 0" by (simp add: wf_inv_def)
      with False have "?r = 0" by (simp add: not_less)
      with assms(2) show False by (simp add: valid_sample_def)
    qed
    with assms(1) obtain x where "x < n" "valid_sample (h x)" "h x = maxRssi st"
      by (auto simp: wf_inv_def)
    with False show ?thesis by (intro exI [of _ x]) (simp add: mx)
  qed
  show ?thesis
    unfolding wf_inv_def
    using bounds ex exmin exmax nz u cnt by (simp add: vs)
qed

lemma wf_inv_fold:
  "n \<le> 128 \<Longrightarrow> wf_inv h n (fold (wf_analyze_step h) [0..<n]
      \<lparr>minRssi = 65535, maxRssi = 0, sumRssi = 0, validSamples = 0\<rparr>)"
proof (induction n)
  case 0
  show ?case by (simp add: wf_inv_init)
next
  case (Suc n)
  then have "wf_inv h n (fold (wf_analyze_step h) [0..<n]
      \<lparr>minRssi = 65535, maxRssi = 0, sumRssi = 0, validSamples = 0\<rparr>)" by simp
  with Suc.prems show ?case
    by (cases "valid_sample (h n)") (simp_all add: wf_inv_count wf_inv_skip)
qed

lemma wf_analyze_inv: "wf_inv h 128 (wf_analyze h)"
proof -
  have "wf_inv h SPECTRUM_MAX_STEPS (wf_analyze h)"
    unfolding wf_analyze_def by (rule wf_inv_fold) (simp add: SPECTRUM_MAX_STEPS_def)
  then show ?thesis by (simp add: SPECTRUM_MAX_STEPS_def)
qed

lemma int_0_to_15_cases:
  "0 \<le> q \<Longrightarrow> q \<le> 15 \<Longrightarrow>
   q = 0 \<or> q = 1 \<or> q = 2 \<or> q = 3 \<or> q = 4 \<or> q = 5 \<or> q = 6 \<or> q = 7 \<or> q = 8 \<or> q = 9
   \<or> q = 10 \<or> q = 11 \<or> q = 12 \<or> q = 13 \<or> q = 14 \<or> q = (15 :: int)"
  by arith

lemma nibble_of_small:
  assumes "0 \<le> q" "q \<le> 15"
  shows "(ucast (to_u32 q AND 0x0F) :: u8) = word_of_int q"
  using int_0_to_15_cases [OF assms] by (elim disjE) (simp_all add: to_u32_def)

lemma uint_u8_small: "0 \<le> q \<Longrightarrow> q \<le> 15 \<Longrightarrow> uint (word_of_int q :: u8) = q"
  by (simp add: uint_word_of_int)

lemma nibble_le_15: "uint (ucast ((n :: u32) AND 0x0F) :: u8) \<le> 15"
proof -
  have b: "0 \<le> uint n AND 15" "uint n AND 15 \<le> 15" by simp_all
  have "uint (ucast (n AND 0x0F) :: u8) = take_bit 8 (uint n AND 15)"
    by (simp add: unsigned_ucast_eq unsigned_and_eq)
  also have "\<dots> = uint n AND 15"
    using b by (simp add: take_bit_eq_mod)
  finally show ?thesis using b by simp
qed

lemma wf_level_le_15: "uint (wf_level st rssi) \<le> 15"
proof -
  have "uint (3 :: u8) \<le> 15" by simp
  then show ?thesis
    using nibble_le_15 by (simp add: wf_level_def Let_def)
qed

lemma c_div_nonneg: "0 \<le> a \<Longrightarrow> 0 < b \<Longrightarrow> c_div a b = a div b"
  by (simp add: c_div_def)

lemma scaled_le_15:
  assumes "0 \<le> d" "d \<le> r" "0 < (r :: int)"
  shows "0 \<le> d * 15 div r \<and> d * 15 div r \<le> 15"
proof -
  have "d * 15 \<le> r * 15" using assms by simp
  then have "d * 15 div r \<le> r * 15 div r" by (rule zdiv_mono1) (use assms in simp)
  moreover have "r * 15 div r = 15" using assms by simp
  moreover have "0 \<le> d * 15 div r" using assms by (simp add: pos_imp_zdiv_nonneg_iff)
  ultimately show ?thesis by simp
qed

lemma wf_level_valid:
  assumes inv: "wf_inv h 128 st" and x: "x < 128" and v: "valid_sample (h x)"
  shows "uint (wf_level st (h x)) =
     (let q = (uint (h x) - uint (minRssi st)) * 15
                div max 1 (uint (maxRssi st) - uint (minRssi st))
      in if 0 < q \<and> q < 3 then 3 else q)"
proof -
  define r where "r = uint (h x)"
  define mn where "mn = uint (minRssi st)"
  define mx where "mx = uint (maxRssi st)"
  have ex: "\<exists>x<128. valid_sample (h x)" using x v by blast
  from inv x v have w: "minRssi st \<le> h x" "h x \<le> maxRssi st" "validSamples st \<noteq> 0"
    by (simp_all add: wf_inv_def ex)
  then have le: "mn \<le> r" "r \<le> mx" by (simp_all add: word_le_def r_def mn_def mx_def)
  from w(3) have pos: "validSamples st > 0" by (simp add: word_neq_0_conv)
  define range where "range = (if maxRssi st > minRssi st then maxRssi st - minRssi st else 1)"
  have rg: "uint range = max 1 (mx - mn)"
  proof (cases "maxRssi st > minRssi st")
    case True
    then have "mn < mx" by (simp add: word_less_alt mn_def mx_def)
    then show ?thesis using True
      by (simp add: range_def uint_sub_if' mn_def mx_def)
  next
    case False
    then have "mx - mn \<le> 0" by (simp add: word_less_alt mn_def mx_def)
    then show ?thesis using False by (simp add: range_def)
  qed
  define q where "q = (r - mn) * 15 div max 1 (mx - mn)"
  have d: "0 \<le> r - mn" "r - mn \<le> max 1 (mx - mn)" "0 < max 1 (mx - mn)" using le by simp_all
  from scaled_le_15 [OF d] have qb: "0 \<le> q" "q \<le> 15" by (simp_all add: q_def)
  have cd: "c_div ((r - mn) * 15) (uint range) = q"
    using d by (simp add: rg q_def c_div_nonneg)
  have lv: "(ucast (to_u32 (c_div ((r - mn) * 15) (uint range)) AND 0x0F) :: u8) = word_of_int q"
    unfolding cd using qb by (rule nibble_of_small)
  have uq: "uint (word_of_int q :: u8) = q" using qb by (rule uint_u8_small)
  have nv: "h x \<noteq> RSSI_MAX_VALUE" "h x \<noteq> 0" using v by (simp_all add: valid_sample_def)
  have "wf_level st (h x) = (if (word_of_int q :: u8) > 0 \<and> (word_of_int q :: u8) < 3 then 3 else word_of_int q)"
    using nv pos lv
    by (simp add: wf_level_def Let_def range_def [symmetric] r_def [symmetric] mn_def [symmetric])
  also have "uint \<dots> = (if 0 < q \<and> q < 3 then 3 else q)"
    by (simp add: word_less_alt uq)
  finally show ?thesis
    by (simp add: Let_def q_def r_def mn_def mx_def)
qed

lemma in_steps: "x \<in> {0..<SPECTRUM_MAX_STEPS} \<longleftrightarrow> x < 128"
  unfolding atLeastLessThan_iff SPECTRUM_MAX_STEPS_def by simp

lemma steps_less: "x < SPECTRUM_MAX_STEPS \<longleftrightarrow> x < 128"
  by (simp add: SPECTRUM_MAX_STEPS_def)

lemma sweep_samples_iff:
  "v \<in> sweep_samples h \<longleftrightarrow> (\<exists>x<128. valid_sample (h x) \<and> v = uint (h x))"
  unfolding sweep_samples_def image_iff by (auto simp: steps_less)

lemma sweep_samples_Min_Max:
  assumes "x < 128" "valid_sample (h x)"
  shows "Min (sweep_samples h) = uint (minRssi (wf_analyze h))"
    and "Max (sweep_samples h) = uint (maxRssi (wf_analyze h))"
proof -
  let ?st = "wf_analyze h"
  have ex: "\<exists>x<128. valid_sample (h x)" using assms by blast
  from wf_analyze_inv [of h]
  have lo: "\<exists>x<128. valid_sample (h x) \<and> h x = minRssi ?st"
    and hi: "\<exists>x<128. valid_sample (h x) \<and> h x = maxRssi ?st"
    and bd: "\<forall>x<128. valid_sample (h x) \<longrightarrow> minRssi ?st \<le> h x \<and> h x \<le> maxRssi ?st"
    by (simp_all add: wf_inv_def ex)
  have fin: "finite (sweep_samples h)" by (simp add: sweep_samples_def)
  have amem: "uint (minRssi ?st) \<in> sweep_samples h"
    unfolding sweep_samples_iff using lo by metis
  have bmem: "uint (maxRssi ?st) \<in> sweep_samples h"
    unfolding sweep_samples_iff using hi by metis
  have bnd: "uint (minRssi ?st) \<le> v \<and> v \<le> uint (maxRssi ?st)" if "v \<in> sweep_samples h" for v
  proof -
    from that obtain y where y: "y < 128" "valid_sample (h y)" "v = uint (h y)"
      unfolding sweep_samples_iff by blast
    with bd have "minRssi ?st \<le> h y \<and> h y \<le> maxRssi ?st" by blast
    with y(3) show ?thesis by (simp add: word_le_def)
  qed
  show "Min (sweep_samples h) = uint (minRssi ?st)"
    using fin amem bnd by (intro Min_eqI) simp_all
  show "Max (sweep_samples h) = uint (maxRssi ?st)"
    using fin bmem bnd by (intro Max_eqI) simp_all
qed

lemma wf_level_invalid: "\<not> valid_sample r \<Longrightarrow> wf_level st r = 0"
  by (auto simp: wf_level_def valid_sample_def)

lemma wf_level_quantized:
  assumes "x < 128"
  shows "uint (wf_level (wf_analyze h) (h x)) = quantized_level h x"
proof (cases "valid_sample (h x)")
  case True
  from wf_level_valid [of h "wf_analyze h" x, OF wf_analyze_inv assms True]
    sweep_samples_Min_Max [of x h, OF assms True]
  show ?thesis using True by (simp add: quantized_level_def Let_def)
next
  case False
  then show ?thesis by (simp add: wf_level_invalid quantized_level_def)
qed

lemma fold_store_row:
  "fold (\<lambda>x wf. wf(x := (wf x)(r := g x))) [0..<n] w
   = (\<lambda>x. if x < n then (w x)(r := g x) else w x)"
proof (induction n)
  case 0
  show ?case by simp
next
  case (Suc n)
  have "fold (\<lambda>x wf. wf(x := (wf x)(r := g x))) [0..<Suc n] w
        = (\<lambda>x. if x < n then (w x)(r := g x) else w x)(n := (w n)(r := g n))"
    by (simp add: Suc.IH)
  also have "\<dots> = (\<lambda>x. if x < Suc n then (w x)(r := g x) else w x)"
    by (rule ext) (simp add: less_Suc_eq)
  finally show ?case .
qed

lemma UpdateWaterfall_index:
  "unat (waterfallIndex (UpdateWaterfall s)) = (unat (waterfallIndex s) + 1) mod 16"
proof -
  have "int (unat (waterfallIndex (UpdateWaterfall s))) = int ((unat (waterfallIndex s) + 1) mod 16)"
    by (simp add: UpdateWaterfall_def Let_def to_u8_def uint_word_of_int
        WATERFALL_HISTORY_DEPTH_def of_nat_mod add.commute)
  then show ?thesis by (simp only: of_nat_eq_iff)
qed

lemma UpdateWaterfall_history:
  "waterfallHistory (UpdateWaterfall s) x row =
     (if x < 128 \<and> row = unat (waterfallIndex (UpdateWaterfall s))
      then wf_level (wf_analyze (rssiHistory s)) (rssiHistory s x)
      else waterfallHistory s x row)"
proof -
  show ?thesis
    by (simp add: UpdateWaterfall_def Let_def fold_store_row steps_less)
qed

lemma UpdateWaterfall_rssiHistory: "rssiHistory (UpdateWaterfall s) = rssiHistory s"
  by (simp add: UpdateWaterfall_def Let_def)

lemma pushSweep_index:
  "unat (waterfallIndex (pushSweep h s)) = (unat (waterfallIndex s) + 1) mod 16"
  by (simp add: pushSweep_def UpdateWaterfall_index)

lemma pushSweep_history:
  "waterfallHistory (pushSweep h s) x row =
     (if x < 128 \<and> row = unat (waterfallIndex (pushSweep h s))
      then wf_level (wf_analyze h) (h x)
      else waterfallHistory s x row)"
  by (simp add: pushSweep_def UpdateWaterfall_history)

lemma pushSweeps_snoc: "pushSweeps (hs @ [h]) s = pushSweep h (pushSweeps hs s)"
  by (simp add: pushSweeps_def)

lemma pushSweeps_index:
  "hs \<noteq> [] \<Longrightarrow>
   unat (waterfallIndex (pushSweeps hs s)) = (unat (waterfallIndex s) + length hs) mod 16"
proof (induction hs rule: rev_induct)
  case Nil
  then show ?case by simp
next
  case (snoc h hs)
  show ?case
  proof (cases "hs = []")
    case True
    then show ?thesis by (simp add: pushSweeps_def pushSweep_index)
  next
    case False
    with snoc.IH have "unat (waterfallIndex (pushSweeps hs s))
        = (unat (waterfallIndex s) + length hs) mod 16" by simp
    then show ?thesis
      by (simp add: pushSweeps_snoc pushSweep_index mod_Suc_eq)
  qed
qed

lemma pushSweeps_index_lt: "hs \<noteq> [] \<Longrightarrow> unat (waterfallIndex (pushSweeps hs s)) < 16"
  by (simp add: pushSweeps_index)

lemma sint_u8_small: "uint (w :: u8) < 128 \<Longrightarrow> sint w = uint w"
proof -
  assume a: "uint w < 128"
  have "- (2 ^ 7) \<le> (0 :: int)" by simp
  also have "0 \<le> uint w" by simp
  finally have "- (2 ^ 7) \<le> uint w" .
  moreover from a have "uint w < 2 ^ 7" by simp
  ultimately have "signed_take_bit 7 (uint w) = uint w"
    by (rule signed_take_bit_int_eq_self)
  then show ?thesis by (simp add: sint_uint)
qed

lemma to_i8_id: "- 128 \<le> x \<Longrightarrow> x < 128 \<Longrightarrow> to_i8 x = x"
  by (simp add: to_i8_def sint_sbintrunc' signed_take_bit_int_eq_self)

lemma unat_less_uint: "unat (w :: u8) < n \<Longrightarrow> uint w < int n"
proof -
  assume "unat w < n"
  then have "int (unat w) < int n" by (simp only: of_nat_less_iff)
  then show ?thesis by simp
qed

lemma historyRow_small:
  assumes "unat wi < 16" "unat a < 16"
  shows "historyRow wi a = (uint wi - uint a) mod 16"
proof -
  have w: "0 \<le> uint wi" "uint wi < 16" "0 \<le> uint a" "uint a < 16"
    using unat_less_uint [OF assms(1)] unat_less_uint [OF assms(2)] by simp_all
  then have s: "sint wi = uint wi" "sint a = uint a" by (simp_all add: sint_u8_small)
  define d where "d = uint wi - uint a"
  have db: "- 16 < d" "d < 16" unfolding d_def using w by linarith+
  have r: "to_i8 d = d" using db by (intro to_i8_id) simp_all
  show ?thesis
  proof (cases "d < 0")
    case True
    then have t: "to_i8 (d + 16) = d + 16"
      using db by (intro to_i8_id) simp_all
    have "(d + 16) mod 16 = d + 16"
      using True db by (intro mod_pos_pos_trivial) simp_all
    moreover have "(d + 16) mod 16 = d mod 16" by simp
    ultimately have "d mod 16 = d + 16" by simp
    with True t show ?thesis
      by (simp add: historyRow_def Let_def s r WATERFALL_HISTORY_DEPTH_def d_def [symmetric])
  next
    case False
    then have "d mod 16 = d"
      using db by (intro mod_pos_pos_trivial) simp_all
    with False show ?thesis
      by (simp add: historyRow_def Let_def s r WATERFALL_HISTORY_DEPTH_def d_def [symmetric])
  qed
qed

lemma upt_0_6: "[0..<6] = [0, 1, 2, 3, 4, 5::nat]"
  by (simp add: upt_rec)

lemma demo_fold: "fold (wf_analyze_step sweep_demo) [0, 1, 2, 3, 4, 5]
      \<lparr>minRssi = 65535, maxRssi = 0, sumRssi = 0, validSamples = 0\<rparr> =
     \<lparr>minRssi = 100, maxRssi = 300, sumRssi = 700, validSamples = 4\<rparr>"
  by (simp add: wf_analyze_step_def sweep_demo_def Let_def RSSI_MAX_VALUE_def)

lemma wf_analyze_step_invalid: "\<not> valid_sample (h k) \<Longrightarrow> wf_analyze_step h k st = st"
  by (auto simp: wf_analyze_step_def valid_sample_def Let_def)

lemma wf_analyze_tail:
  assumes "\<forall>k\<ge>m. \<not> valid_sample (h k)"
  shows "fold (wf_analyze_step h) [0..<m + d] st = fold (wf_analyze_step h) [0..<m] st"
proof (induction d)
  case 0
  show ?case by simp
next
  case (Suc d)
  have "\<not> valid_sample (h (m + d))" using assms by simp
  then show ?case by (simp add: Suc.IH wf_analyze_step_invalid)
qed

lemma demo_stats:
  "wf_analyze sweep_demo = \<lparr>minRssi = 100, maxRssi = 300, sumRssi = 700, validSamples = 4\<rparr>"
proof -
  have inv: "\<forall>k\<ge>6. \<not> valid_sample (sweep_demo k)"
    by (simp add: sweep_demo_def valid_sample_def)
  have "SPECTRUM_MAX_STEPS = 6 + 122" by (simp add: SPECTRUM_MAX_STEPS_def)
  then have "wf_analyze sweep_demo
        = fold (wf_analyze_step sweep_demo) [0..<6 + 122]
            \<lparr>minRssi = 65535, maxRssi = 0, sumRssi = 0, validSamples = 0\<rparr>"
    by (simp only: wf_analyze_def)
  also have "\<dots> = fold (wf_analyze_step sweep_demo) [0..<6]
            \<lparr>minRssi = 65535, maxRssi = 0, sumRssi = 0, validSamples = 0\<rparr>"
    using inv by (rule wf_analyze_tail)
  also have "\<dots> = \<lparr>minRssi = 100, maxRssi = 300, sumRssi = 700, validSamples = 4\<rparr>"
    unfolding upt_0_6 by (rule demo_fold)
  finally show ?thesis .
qed

lemma demo_cells:
  "sweep_demo 5 = 120" "sweep_demo 2 = 300" "sweep_demo 3 = 65535" "sweep_demo 7 = 0"
  by (simp_all add: sweep_demo_def)

lemma demo_level_5: "wf_level (wf_analyze sweep_demo) (sweep_demo 5) = 3"
  unfolding demo_stats demo_cells
  by (simp add: wf_level_def Let_def RSSI_MAX_VALUE_def c_div_def to_u32_def)

lemma demo_level_2: "wf_level (wf_analyze sweep_demo) (sweep_demo 2) = 15"
  unfolding demo_stats demo_cells
  by (simp add: wf_level_def Let_def RSSI_MAX_VALUE_def c_div_def to_u32_def)

lemma demo_level_3: "wf_level (wf_analyze sweep_demo) (sweep_demo 3) = 0"
  unfolding demo_stats demo_cells
  by (simp add: wf_level_def Let_def RSSI_MAX_VALUE_def c_div_def to_u32_def)

lemma rows_differ:
  assumes "0 \<le> w" "w < 16" "0 < a" "a < (16 :: int)"
  shows "(w - a) mod 16 \<noteq> w"
proof
  assume e: "(w - a) mod 16 = w"
  show False
  proof (cases "w - a < 0")
    case True
    have "(w - a + 16) mod 16 = w - a + 16"
      using True assms by (intro mod_pos_pos_trivial) simp_all
    moreover have "(w - a + 16) mod 16 = (w - a) mod 16" by simp
    ultimately show False using e assms by simp
  next
    case False
    then have "(w - a) mod 16 = w - a"
      using assms by (intro mod_pos_pos_trivial) simp_all
    with e assms show False by simp
  qed
qed

lemma row_shift: "(((p :: int) + 1) mod 16 - (a + 1)) mod 16 = (p - a) mod 16"
proof -
  have "((p + 1) mod 16 - (a + 1)) mod 16 = ((p + 1) - (a + 1)) mod 16"
    by (rule mod_diff_left_eq)
  then show ?thesis by simp
qed

lemma unat_of_nat_small: "a < 16 \<Longrightarrow> unat (of_nat a :: u8) = a"
  by (simp add: unat_of_nat)

lemma uint_of_nat_small: "a < 16 \<Longrightarrow> uint (of_nat a :: u8) = int a"
proof -
  assume "a < 16"
  then have "int (unat (of_nat a :: u8)) = int a" by (simp only: unat_of_nat_small)
  then show ?thesis by simp
qed

lemma uint_index_lt: "unat (w :: u8) < 16 \<Longrightarrow> 0 \<le> uint w \<and> uint w < 16"
  using unat_less_uint [of w 16] by simp

lemma pushSweep_uint_index:
  "uint (waterfallIndex (pushSweep h s)) = (uint (waterfallIndex s) + 1) mod 16"
proof -
  have "int (unat (waterfallIndex (pushSweep h s))) = int ((unat (waterfallIndex s) + 1) mod 16)"
    by (simp only: pushSweep_index)
  then show ?thesis by (simp add: of_nat_mod add.commute)
qed

lemma pushSweep_index_lt: "unat (waterfallIndex (pushSweep h s)) < 16"
  by (simp add: pushSweep_index)

lemma wf_read_newest:
  assumes "x < 128"
  shows "wf_read (pushSweep h s) x 0 = wf_level (wf_analyze h) (h x)"
proof -
  let ?wi = "waterfallIndex (pushSweep h s)"
  have "historyRow ?wi 0 = (uint ?wi - uint (0 :: u8)) mod 16"
    by (rule historyRow_small) (simp_all add: pushSweep_index_lt)
  also have "\<dots> = uint ?wi"
    using uint_index_lt [OF pushSweep_index_lt [of h s]] by (simp add: mod_pos_pos_trivial)
  finally have "nat (historyRow ?wi 0) = unat ?wi" by simp
  then show ?thesis using assms by (simp add: wf_read_def pushSweep_history)
qed

lemma wf_read_older:
  assumes "unat (waterfallIndex s) < 16" "a < 15"
  shows "wf_read (pushSweep h s) x (of_nat (Suc a)) = wf_read s x (of_nat a)"
proof -
  let ?wi = "waterfallIndex (pushSweep h s)"
  let ?p = "uint (waterfallIndex s)"
  from assms(2) have sa: "Suc a < 16" and sa0: "a < 16" by simp_all
  have a1: "uint (of_nat (Suc a) :: u8) = int a + 1"
    using uint_of_nat_small [OF sa] by (simp only: of_nat_Suc add.commute)
  have a0: "uint (of_nat a :: u8) = int a" using sa0 by (rule uint_of_nat_small)
  have ua1: "unat (of_nat (Suc a) :: u8) < 16"
    using unat_of_nat_small [OF sa] sa by (simp only:)
  have ua0: "unat (of_nat a :: u8) < 16"
    using unat_of_nat_small [OF sa0] sa0 by (simp only:)
  have r1: "historyRow ?wi (of_nat (Suc a)) = (uint ?wi - (int a + 1)) mod 16"
    using historyRow_small [OF pushSweep_index_lt ua1, of h s] by (simp only: a1)
  have r0: "historyRow (waterfallIndex s) (of_nat a) = (?p - int a) mod 16"
    using historyRow_small [OF assms(1) ua0] by (simp only: a0)
  have same: "historyRow ?wi (of_nat (Suc a)) = historyRow (waterfallIndex s) (of_nat a)"
    unfolding r1 r0 pushSweep_uint_index by (rule row_shift)
  have wb: "0 \<le> uint ?wi \<and> uint ?wi < 16" by (rule uint_index_lt) (rule pushSweep_index_lt)
  have "(uint ?wi - (int a + 1)) mod 16 \<noteq> uint ?wi"
    using wb assms(2) by (intro rows_differ) simp_all
  moreover have nn: "0 \<le> (uint ?wi - (int a + 1)) mod 16" by simp
  ultimately have "nat (historyRow ?wi (of_nat (Suc a))) \<noteq> unat ?wi"
    unfolding r1
  proof -
    assume ne: "(uint ?wi - (int a + 1)) mod 16 \<noteq> uint ?wi"
    show "nat ((uint ?wi - (int a + 1)) mod 16) \<noteq> unat ?wi"
    proof
      assume "nat ((uint ?wi - (int a + 1)) mod 16) = unat ?wi"
      then have "int (nat ((uint ?wi - (int a + 1)) mod 16)) = int (unat ?wi)" by (simp only:)
      with nn have "(uint ?wi - (int a + 1)) mod 16 = uint ?wi" by simp
      with ne show False by simp
    qed
  qed
  then show ?thesis
    by (simp add: wf_read_def pushSweep_history same [symmetric])
qed

lemma pushSweeps_read_nat:
  "a < length hs \<Longrightarrow> a < 16 \<Longrightarrow> x < 128 \<Longrightarrow>
   wf_read (pushSweeps hs s) x (of_nat a) = wf_level (wf_analyze (rev hs ! a)) ((rev hs ! a) x)"
proof (induction hs arbitrary: a rule: rev_induct)
  case Nil
  then show ?case by simp
next
  case (snoc h hs)
  show ?case
  proof (cases a)
    case 0
    with snoc.prems show ?thesis by (simp add: pushSweeps_snoc wf_read_newest)
  next
    case (Suc a')
    with snoc.prems have a': "a' < length hs" "a' < 15" "a' < 16" by simp_all
    then have ne: "hs \<noteq> []" by auto
    have "wf_read (pushSweeps (hs @ [h]) s) x (of_nat (Suc a'))
          = wf_read (pushSweeps hs s) x (of_nat a')"
      unfolding pushSweeps_snoc
      by (rule wf_read_older) (simp_all add: pushSweeps_index_lt [OF ne] a')
    also have "\<dots> = wf_level (wf_analyze (rev hs ! a')) ((rev hs ! a') x)"
      using a' snoc.prems(3) by (intro snoc.IH) simp_all
    finally show ?thesis by (simp add: Suc)
  qed
qed

lemma quantized_level_range:
  assumes "x < 128"
  shows "0 \<le> quantized_level h x \<and> quantized_level h x \<le> 15"
proof -
  have e: "quantized_level h x = uint (wf_level (wf_analyze h) (h x))"
    using wf_level_quantized [OF assms, of h] by simp
  have "0 \<le> uint (wf_level (wf_analyze h) (h x))" by simp
  with wf_level_le_15 [of "wf_analyze h" "h x"] show ?thesis unfolding e by simp
qed

lemma UpdateWaterfall_push: "UpdateWaterfall s = pushSweep (rssiHistory s) s"
  by (simp add: pushSweep_def)

lemma pushSweeps_Cons: "pushSweeps (h # hs) s = pushSweeps hs (pushSweep h s)"
  by (simp add: pushSweeps_def)

lemma pushSweeps_cycle:
  assumes "length hs = 16"
  shows "waterfallIndex (pushSweeps (h0 # hs) s) = waterfallIndex (pushSweep h0 s)"
proof -
  from assms have ne: "hs \<noteq> []" by auto
  have "unat (waterfallIndex (pushSweeps hs (pushSweep h0 s)))
        = (unat (waterfallIndex (pushSweep h0 s)) + 16) mod 16"
    using pushSweeps_index [OF ne, of "pushSweep h0 s"] assms by simp
  also have "\<dots> = unat (waterfallIndex (pushSweep h0 s)) mod 16"
    by simp
  also have "\<dots> = unat (waterfallIndex (pushSweep h0 s))"
    using pushSweep_index_lt [of h0 s] by simp
  finally show ?thesis by (simp only: pushSweeps_Cons word_unat_eq_iff)
qed

lemma pushSweeps_read:
  assumes "unat y < length hs" "unat y < 16" "x < 128"
  shows "uint (wf_read (pushSweeps hs s) x y) = quantized_level (rev hs ! unat y) x"
proof -
  have "wf_read (pushSweeps hs s) x (of_nat (unat y))
        = wf_level (wf_analyze (rev hs ! unat y)) ((rev hs ! unat y) x)"
    using assms by (rule pushSweeps_read_nat)
  then show ?thesis using assms(3) by (simp add: wf_level_quantized)
qed

text \<open>
  C9. A push by \<open>UpdateWaterfall\<close> stores for every bin a level in 0..15 that is the
  quantisation of the specification (\<open>quantized_level\<close>); the write cursor advances by 1
  modulo the depth; no other row of the history changes. After depth + 1 pushes the cursor
  is where it was after the first, so every relative age resolves to the same row; and a
  read at age \<open>y\<close> returns the levels of the sweep pushed \<open>y\<close> pushes before the newest.
\<close>

theorem waterfall_push:
  "(\<forall>x<128. uint (waterfallHistory (UpdateWaterfall s) x (unat (waterfallIndex (UpdateWaterfall s))))
               = quantized_level (rssiHistory s) x
            \<and> 0 \<le> quantized_level (rssiHistory s) x \<and> quantized_level (rssiHistory s) x \<le> 15)
   \<and> unat (waterfallIndex (UpdateWaterfall s))
       = (unat (waterfallIndex s) + 1) mod WATERFALL_HISTORY_DEPTH
   \<and> (\<forall>x row. row \<noteq> unat (waterfallIndex (UpdateWaterfall s))
         \<longrightarrow> waterfallHistory (UpdateWaterfall s) x row = waterfallHistory s x row)
   \<and> (length hs = WATERFALL_HISTORY_DEPTH
        \<longrightarrow> waterfallIndex (pushSweeps (h # hs) s) = waterfallIndex (pushSweep h s))
   \<and> (\<forall>x<128. \<forall>y. unat y < length hs \<and> unat y < WATERFALL_HISTORY_DEPTH
        \<longrightarrow> uint (wf_read (pushSweeps hs s) x y) = quantized_level (rev hs ! unat y) x)"
proof (intro conjI allI impI)
  fix x :: nat assume x: "x < 128"
  show "uint (waterfallHistory (UpdateWaterfall s) x (unat (waterfallIndex (UpdateWaterfall s))))
               = quantized_level (rssiHistory s) x"
    using x by (simp add: UpdateWaterfall_history wf_level_quantized)
  from quantized_level_range [OF x]
  show "0 \<le> quantized_level (rssiHistory s) x" "quantized_level (rssiHistory s) x \<le> 15"
    by simp_all
next
  show "unat (waterfallIndex (UpdateWaterfall s))
       = (unat (waterfallIndex s) + 1) mod WATERFALL_HISTORY_DEPTH"
    by (simp add: UpdateWaterfall_index WATERFALL_HISTORY_DEPTH_def)
next
  fix x row assume "row \<noteq> unat (waterfallIndex (UpdateWaterfall s))"
  then show "waterfallHistory (UpdateWaterfall s) x row = waterfallHistory s x row"
    by (simp add: UpdateWaterfall_history)
next
  assume "length hs = WATERFALL_HISTORY_DEPTH"
  then have "length hs = 16" by (simp add: WATERFALL_HISTORY_DEPTH_def)
  then show "waterfallIndex (pushSweeps (h # hs) s) = waterfallIndex (pushSweep h s)"
    by (rule pushSweeps_cycle)
next
  fix x :: nat and y :: u8
  assume "x < 128" and "unat y < length hs \<and> unat y < WATERFALL_HISTORY_DEPTH"
  then show "uint (wf_read (pushSweeps hs s) x y) = quantized_level (rev hs ! unat y) x"
    by (intro pushSweeps_read) (simp_all add: WATERFALL_HISTORY_DEPTH_def)
qed

text \<open>
  The demonstration sweep: 120 gives level 1, raised to 3; 300 gives 15; the skipped bin
  gives 0; row 0 stays as it was; after 17 pushes the cursor is at 1 again and the newest
  row holds the last sweep.
\<close>

theorem waterfall_push_witness:
  "waterfallHistory (UpdateWaterfall wf_demo) 5 1 = 3
   \<and> quantized_level sweep_demo 5 = 3
   \<and> waterfallHistory (UpdateWaterfall wf_demo) 2 1 = 15
   \<and> quantized_level sweep_demo 3 = 0
   \<and> waterfallIndex (UpdateWaterfall wf_demo) = 1
   \<and> waterfallHistory (UpdateWaterfall wf_demo) 2 0 = 0
   \<and> waterfallIndex (pushSweeps (sweep_demo # replicate 16 (\<lambda>k. 0)) wf_demo) = 1
   \<and> wf_read (pushSweeps (replicate 16 (\<lambda>k. 0) @ [sweep_demo]) wf_demo) 2 0 = 15"
proof -
  note t = waterfall_push [of wf_demo "replicate 16 (\<lambda>k. 0) @ [sweep_demo]" sweep_demo]
  note u = waterfall_push [of wf_demo "replicate 16 (\<lambda>k. 0)" sweep_demo]
  note t_level = t [THEN conjunct1, rule_format]
  note t_index = t [THEN conjunct2, THEN conjunct1]
  note t_frame = t [THEN conjunct2, THEN conjunct2, THEN conjunct1, rule_format]
  note u_cycle = u [THEN conjunct2, THEN conjunct2, THEN conjunct2, THEN conjunct1, rule_format]
  note t_read = t [THEN conjunct2, THEN conjunct2, THEN conjunct2, THEN conjunct2, rule_format]
  have h: "rssiHistory wf_demo = sweep_demo" by (simp add: wf_demo_def)
  have i0: "waterfallIndex wf_demo = 0" by (simp add: wf_demo_def globals_init_def)
  have w0: "waterfallHistory wf_demo 2 0 = 0" by (simp add: wf_demo_def globals_init_def)
  have i1: "waterfallIndex (UpdateWaterfall wf_demo) = 1"
  proof -
    from t_index have "unat (waterfallIndex (UpdateWaterfall wf_demo)) = unat (1 :: u8)"
      by (simp add: i0 WATERFALL_HISTORY_DEPTH_def)
    then show ?thesis by (simp only: word_unat_eq_iff)
  qed
  have p1: "pushSweep sweep_demo wf_demo = UpdateWaterfall wf_demo"
    by (simp add: UpdateWaterfall_push h)
  have l1: "waterfallHistory (UpdateWaterfall wf_demo) 5 (Suc 0) = 3"
    by (simp add: UpdateWaterfall_history i1 h demo_level_5)
  have l2: "waterfallHistory (UpdateWaterfall wf_demo) 2 (Suc 0) = 15"
    by (simp add: UpdateWaterfall_history i1 h demo_level_2)
  have l3: "waterfallHistory (UpdateWaterfall wf_demo) 3 (Suc 0) = 0"
    by (simp add: UpdateWaterfall_history i1 h demo_level_3)
  have q1: "quantized_level sweep_demo 5 = 3"
    using t_level [of 5] by (simp add: h i1 l1)
  have q2: "quantized_level sweep_demo 2 = 15"
    using t_level [of 2] by (simp add: h i1 l2)
  have q3: "quantized_level sweep_demo 3 = 0"
    using t_level [of 3] by (simp add: h i1 l3)
  have fr: "waterfallHistory (UpdateWaterfall wf_demo) 2 0 = 0"
    using t_frame [of 0 2] by (simp add: i1 w0)
  have cyc: "waterfallIndex (pushSweeps (sweep_demo # replicate 16 (\<lambda>k. 0)) wf_demo) = 1"
    using u_cycle by (simp add: WATERFALL_HISTORY_DEPTH_def p1 i1)
  have "uint (wf_read (pushSweeps (replicate 16 (\<lambda>k. 0) @ [sweep_demo]) wf_demo) 2 0)
       = quantized_level sweep_demo 2"
    using t_read [of 2 0] by (simp add: WATERFALL_HISTORY_DEPTH_def)
  then have "uint (wf_read (pushSweeps (replicate 16 (\<lambda>k. 0) @ [sweep_demo]) wf_demo) 2 0)
       = uint (15 :: u8)" by (simp add: q2)
  then have rd: "wf_read (pushSweeps (replicate 16 (\<lambda>k. 0) @ [sweep_demo]) wf_demo) 2 0 = 15"
    by (simp only: word_uint_eq_iff)
  from l1 q1 l2 q3 i1 fr cyc rd show ?thesis by simp
qed

section \<open>Sweep steps\<close>

lemma note_access_fields:
  "scanInfo (note_access a s) = scanInfo s"
  "rssiHistory (note_access a s) = rssiHistory s"
  "rf (note_access a s) = rf s"
  "blacklistFreqs (note_access a s) = blacklistFreqs s"
  "blacklistFreqsIdx (note_access a s) = blacklistFreqsIdx s"
  "preventKeypress (note_access a s) = preventKeypress s"
  "isListening (note_access a s) = isListening s"
  "newScanStart (note_access a s) = newScanStart s"
  "peak (note_access a s) = peak s"
  "settings (note_access a s) = settings s"
  "fMeasure (note_access a s) = fMeasure s"
  by (simp_all add: note_access_def)

lemma note_access_log:
  "outOfBounds (note_access a s) =
     (if access_index a < 128 then outOfBounds s else outOfBounds s @ [a])"
  by (simp add: note_access_def SPECTRUM_MAX_STEPS_def)

lemma Scan_unfold:
  "Scan b e rssi s =
     (if scan_guard b s
      then UpdateScanInfo e (Measure b rssi (SetF (scan_f (scanInfo s))
              (note_access (HistRead (unat (scan_i (scanInfo s)))) s)))
      else note_access (HistRead (unat (scan_i (scanInfo s)))) s)"
  by (simp add: Scan_def Let_def scan_guard_def note_access_fields IsBlacklisted_def)

lemma UpdateScanInfo_fields:
  "scan_i (scanInfo (UpdateScanInfo e s)) = scan_i (scanInfo s)"
  "scan_measurementsCount (scanInfo (UpdateScanInfo e s)) = scan_measurementsCount (scanInfo s)"
  "scan_f (scanInfo (UpdateScanInfo e s)) = scan_f (scanInfo s)"
  "scan_scanStep (scanInfo (UpdateScanInfo e s)) = scan_scanStep (scanInfo s)"
  "rssiHistory (UpdateScanInfo e s) = rssiHistory s"
  "rf (UpdateScanInfo e s) = rf s"
  "outOfBounds (UpdateScanInfo e s) = outOfBounds s"
  "blacklistFreqs (UpdateScanInfo e s) = blacklistFreqs s"
  "blacklistFreqsIdx (UpdateScanInfo e s) = blacklistFreqsIdx s"
  "preventKeypress (UpdateScanInfo e s) = preventKeypress s"
  "isListening (UpdateScanInfo e s) = isListening s"
  "newScanStart (UpdateScanInfo e s) = newScanStart s"
  "peak (UpdateScanInfo e s) = peak s"
  "fMeasure (UpdateScanInfo e s) = fMeasure s"
  "rssiTriggerLevel (settings (UpdateScanInfo e s)) = rssiTriggerLevel (settings s)"
  by (simp_all add: UpdateScanInfo_def Let_def)

lemma rssiHistory_store_fields:
  "scanInfo (rssiHistory_store k v s) = scanInfo s"
  "rf (rssiHistory_store k v s) = rf s"
  "blacklistFreqs (rssiHistory_store k v s) = blacklistFreqs s"
  "blacklistFreqsIdx (rssiHistory_store k v s) = blacklistFreqsIdx s"
  "preventKeypress (rssiHistory_store k v s) = preventKeypress s"
  "isListening (rssiHistory_store k v s) = isListening s"
  "newScanStart (rssiHistory_store k v s) = newScanStart s"
  "peak (rssiHistory_store k v s) = peak s"
  "settings (rssiHistory_store k v s) = settings s"
  "fMeasure (rssiHistory_store k v s) = fMeasure s"
  "rssiHistory (rssiHistory_store k v s) = (rssiHistory s)(k := v)"
  "outOfBounds (rssiHistory_store k v s) =
     (if k < 128 then outOfBounds s else outOfBounds s @ [HistWrite k v])"
  by (simp_all add: rssiHistory_store_def note_access_fields note_access_log)

lemma SetRssiHistory_fields:
  "scanInfo (SetRssiHistory b idx v s) = scanInfo s"
  "rf (SetRssiHistory b idx v s) = rf s"
  "blacklistFreqs (SetRssiHistory b idx v s) = blacklistFreqs s"
  "blacklistFreqsIdx (SetRssiHistory b idx v s) = blacklistFreqsIdx s"
  "preventKeypress (SetRssiHistory b idx v s) = preventKeypress s"
  "isListening (SetRssiHistory b idx v s) = isListening s"
  "newScanStart (SetRssiHistory b idx v s) = newScanStart s"
  "peak (SetRssiHistory b idx v s) = peak s"
  "settings (SetRssiHistory b idx v s) = settings s"
  "fMeasure (SetRssiHistory b idx v s) = fMeasure s"
  by (simp_all add: SetRssiHistory_def Let_def rssiHistory_store_fields note_access_fields)

lemma SetRssiHistory_direct:
  "\<not> scan_measurementsCount (scanInfo s) > 128 \<Longrightarrow>
   SetRssiHistory b idx v s = rssiHistory_store (unat idx) v s"
  by (simp add: SetRssiHistory_def)

lemma Measure_fields:
  "scan_i (scanInfo (Measure b v s)) = scan_i (scanInfo s)"
  "scan_measurementsCount (scanInfo (Measure b v s)) = scan_measurementsCount (scanInfo s)"
  "scan_f (scanInfo (Measure b v s)) = scan_f (scanInfo s)"
  "scan_scanStep (scanInfo (Measure b v s)) = scan_scanStep (scanInfo s)"
  "scan_rssi (scanInfo (Measure b v s)) = v"
  "rf (Measure b v s) = rf s"
  "blacklistFreqs (Measure b v s) = blacklistFreqs s"
  "blacklistFreqsIdx (Measure b v s) = blacklistFreqsIdx s"
  "preventKeypress (Measure b v s) = preventKeypress s"
  "isListening (Measure b v s) = isListening s"
  "newScanStart (Measure b v s) = newScanStart s"
  "peak (Measure b v s) = peak s"
  "settings (Measure b v s) = settings s"
  "fMeasure (Measure b v s) = fMeasure s"
  by (simp_all add: Measure_def SetRssiHistory_fields)

lemma SetF_fields:
  "scanInfo (SetF f s) = scanInfo s"
  "rssiHistory (SetF f s) = rssiHistory s"
  "outOfBounds (SetF f s) = outOfBounds s"
  "blacklistFreqs (SetF f s) = blacklistFreqs s"
  "blacklistFreqsIdx (SetF f s) = blacklistFreqsIdx s"
  "preventKeypress (SetF f s) = preventKeypress s"
  "isListening (SetF f s) = isListening s"
  "newScanStart (SetF f s) = newScanStart s"
  "peak (SetF f s) = peak s"
  "settings (SetF f s) = settings s"
  "fMeasure (SetF f s) = f"
  "rf (SetF f s) = rf s @ [BK4819_SetFrequency f]"
  by (simp_all add: SetF_def)

lemma Scan_fields:
  "scan_i (scanInfo (Scan b e v s)) = scan_i (scanInfo s)"
  "scan_measurementsCount (scanInfo (Scan b e v s)) = scan_measurementsCount (scanInfo s)"
  "scan_f (scanInfo (Scan b e v s)) = scan_f (scanInfo s)"
  "scan_scanStep (scanInfo (Scan b e v s)) = scan_scanStep (scanInfo s)"
  "blacklistFreqs (Scan b e v s) = blacklistFreqs s"
  "blacklistFreqsIdx (Scan b e v s) = blacklistFreqsIdx s"
  "preventKeypress (Scan b e v s) = preventKeypress s"
  "isListening (Scan b e v s) = isListening s"
  "newScanStart (Scan b e v s) = newScanStart s"
  "peak (Scan b e v s) = peak s"
  "rssiTriggerLevel (settings (Scan b e v s)) = rssiTriggerLevel (settings s)"
  by (simp_all add: Scan_unfold UpdateScanInfo_fields Measure_fields SetF_fields note_access_fields)

lemma Scan_rf:
  "rf (Scan b e v s) =
     (if scan_guard b s then rf s @ [BK4819_SetFrequency (scan_f (scanInfo s))] else rf s)"
  by (simp add: Scan_unfold UpdateScanInfo_fields Measure_fields SetF_fields note_access_fields)

lemma sweepDone_iff:
  "sweepDone b e v s \<longleftrightarrow> \<not> scan_i (scanInfo s) < scan_measurementsCount (scanInfo s)"
  by (simp add: sweepDone_def Scan_fields)

lemma UpdateScan_step:
  "\<not> sweepDone b e v s \<Longrightarrow> UpdateScan b e v s = NextScanStep (Scan b e v s)"
  by (simp add: UpdateScan_def Let_def sweepDone_def)

lemma NextScanStep_fields:
  "scan_i (scanInfo (NextScanStep s)) = scan_i (scanInfo s) + 1"
  "scan_measurementsCount (scanInfo (NextScanStep s)) = scan_measurementsCount (scanInfo s)"
  "rssiHistory (NextScanStep s) = rssiHistory s"
  "rf (NextScanStep s) = rf s"
  "outOfBounds (NextScanStep s) = outOfBounds s"
  "blacklistFreqs (NextScanStep s) = blacklistFreqs s"
  "blacklistFreqsIdx (NextScanStep s) = blacklistFreqsIdx s"
  "preventKeypress (NextScanStep s) = preventKeypress s"
  "isListening (NextScanStep s) = isListening s"
  "newScanStart (NextScanStep s) = newScanStart s"
  by (simp_all add: NextScanStep_def)

lemma direct_mode: "unat (mc :: u16) \<le> 128 \<Longrightarrow> \<not> mc > 128"
  by (simp add: word_less_nat_alt)

lemma Scan_rssiHistory_direct:
  assumes "unat (scan_measurementsCount (scanInfo s)) \<le> 128"
  shows "rssiHistory (Scan b e v s) =
     (if scan_guard b s then (rssiHistory s)(unat (scan_i (scanInfo s)) := v) else rssiHistory s)"
proof -
  let ?s1 = "SetF (scan_f (scanInfo s)) (note_access (HistRead (unat (scan_i (scanInfo s)))) s)"
  let ?s2 = "?s1\<lparr>scanInfo := (scanInfo ?s1)\<lparr>scan_rssi := v\<rparr>\<rparr>"
  have "\<not> scan_measurementsCount (scanInfo ?s2) > 128"
    using direct_mode [OF assms] by (simp add: SetF_fields note_access_fields)
  then have "Measure b v ?s1 = rssiHistory_store (unat (scan_i (scanInfo s))) v ?s2"
    by (simp add: Measure_def SetRssiHistory_direct SetF_fields note_access_fields)
  then show ?thesis
    by (simp add: Scan_unfold UpdateScanInfo_fields rssiHistory_store_fields SetF_fields
        note_access_fields)
qed

lemma Scan_outOfBounds_direct:
  assumes "unat (scan_measurementsCount (scanInfo s)) \<le> 128"
  shows "outOfBounds (Scan b e v s) =
     outOfBounds s @
       (if unat (scan_i (scanInfo s)) < 128 then []
        else HistRead (unat (scan_i (scanInfo s)))
               # (if scan_guard b s then [HistWrite (unat (scan_i (scanInfo s))) v] else []))"
proof -
  let ?s1 = "SetF (scan_f (scanInfo s)) (note_access (HistRead (unat (scan_i (scanInfo s)))) s)"
  let ?s2 = "?s1\<lparr>scanInfo := (scanInfo ?s1)\<lparr>scan_rssi := v\<rparr>\<rparr>"
  have "\<not> scan_measurementsCount (scanInfo ?s2) > 128"
    using direct_mode [OF assms] by (simp add: SetF_fields note_access_fields)
  then have "Measure b v ?s1 = rssiHistory_store (unat (scan_i (scanInfo s))) v ?s2"
    by (simp add: Measure_def SetRssiHistory_direct SetF_fields note_access_fields)
  then show ?thesis
    by (simp add: Scan_unfold UpdateScanInfo_fields rssiHistory_store_fields SetF_fields
        note_access_fields note_access_log)
qed

lemma unat_u16_lt: "unat (w :: u16) < 65536"
proof -
  have "int (unat w) < int 65536" using uint_u16_bounds [of w] by simp
  then show ?thesis by (simp only: of_nat_less_iff)
qed

lemma unat_succ_below:
  assumes "unat (i :: u16) < unat (mc :: u16)"
  shows "unat (i + 1) = Suc (unat i)"
proof -
  have "unat mc < 65536" by (rule unat_u16_lt)
  with assms have "unat i < 65535" by simp
  then show ?thesis by (rule unat_u16_succ)
qed

lemma UpdateScans_Cons: "UpdateScans b e (r # rs) s = UpdateScans b e rs (UpdateScan b e r s)"
  by (simp add: UpdateScans_def)

lemma UpdateScans_snoc: "UpdateScans b e (rs @ [r]) s = UpdateScan b e r (UpdateScans b e rs s)"
  by (simp add: UpdateScans_def)

lemma sweep_run:
  "unat (scan_i (scanInfo s)) + length rs \<le> unat (scan_measurementsCount (scanInfo s)) \<Longrightarrow>
   unat (scan_i (scanInfo (UpdateScans b e rs s))) = unat (scan_i (scanInfo s)) + length rs
   \<and> scan_measurementsCount (scanInfo (UpdateScans b e rs s)) = scan_measurementsCount (scanInfo s)
   \<and> preventKeypress (UpdateScans b e rs s) = preventKeypress s
   \<and> isListening (UpdateScans b e rs s) = isListening s
   \<and> newScanStart (UpdateScans b e rs s) = newScanStart s
   \<and> blacklistFreqs (UpdateScans b e rs s) = blacklistFreqs s
   \<and> blacklistFreqsIdx (UpdateScans b e rs s) = blacklistFreqsIdx s"
proof (induction rs arbitrary: s)
  case Nil
  show ?case by (simp add: UpdateScans_def)
next
  case (Cons r rs)
  let ?s' = "UpdateScan b e r s"
  from Cons.prems have lt: "unat (scan_i (scanInfo s)) < unat (scan_measurementsCount (scanInfo s))"
    by simp
  then have nd: "\<not> sweepDone b e r s" by (simp add: sweepDone_iff word_less_nat_alt)
  have st: "?s' = NextScanStep (Scan b e r s)" using nd by (rule UpdateScan_step)
  have i': "unat (scan_i (scanInfo ?s')) = Suc (unat (scan_i (scanInfo s)))"
    by (simp add: st NextScanStep_fields Scan_fields unat_succ_below [OF lt])
  have mc': "scan_measurementsCount (scanInfo ?s') = scan_measurementsCount (scanInfo s)"
    by (simp add: st NextScanStep_fields Scan_fields)
  have "unat (scan_i (scanInfo ?s')) + length rs \<le> unat (scan_measurementsCount (scanInfo ?s'))"
    using Cons.prems by (simp add: i' mc')
  from Cons.IH [OF this] show ?case
    by (simp add: UpdateScans_Cons i' mc') (simp add: st NextScanStep_fields Scan_fields)
qed

lemma sweep_run_direct:
  "unat (scan_i (scanInfo s)) + length rs \<le> unat (scan_measurementsCount (scanInfo s)) \<Longrightarrow>
   unat (scan_measurementsCount (scanInfo s)) \<le> 128 \<Longrightarrow>
   (\<forall>k\<ge>unat (scan_i (scanInfo s)) + length rs.
        rssiHistory (UpdateScans b e rs s) k = rssiHistory s k)
   \<and> outOfBounds (UpdateScans b e rs s) = outOfBounds s"
proof (induction rs arbitrary: s)
  case Nil
  show ?case by (simp add: UpdateScans_def)
next
  case (Cons r rs)
  let ?s' = "UpdateScan b e r s"
  from Cons.prems have lt: "unat (scan_i (scanInfo s)) < unat (scan_measurementsCount (scanInfo s))"
    by simp
  then have nd: "\<not> sweepDone b e r s" by (simp add: sweepDone_iff word_less_nat_alt)
  have st: "?s' = NextScanStep (Scan b e r s)" using nd by (rule UpdateScan_step)
  have i': "unat (scan_i (scanInfo ?s')) = Suc (unat (scan_i (scanInfo s)))"
    by (simp add: st NextScanStep_fields Scan_fields unat_succ_below [OF lt])
  have mc': "scan_measurementsCount (scanInfo ?s') = scan_measurementsCount (scanInfo s)"
    by (simp add: st NextScanStep_fields Scan_fields)
  have inb: "unat (scan_i (scanInfo s)) < 128" using lt Cons.prems(2) by simp
  have h': "\<forall>k\<ge>Suc (unat (scan_i (scanInfo s))). rssiHistory ?s' k = rssiHistory s k"
    by (simp add: st NextScanStep_fields Scan_rssiHistory_direct [OF Cons.prems(2)])
  have o': "outOfBounds ?s' = outOfBounds s"
    using inb by (simp add: st NextScanStep_fields Scan_outOfBounds_direct [OF Cons.prems(2)])
  have p1: "unat (scan_i (scanInfo ?s')) + length rs \<le> unat (scan_measurementsCount (scanInfo ?s'))"
    using Cons.prems by (simp add: i' mc')
  have p2: "unat (scan_measurementsCount (scanInfo ?s')) \<le> 128"
    using Cons.prems by (simp add: mc')
  from Cons.IH [OF p1 p2] h' show ?case
    by (simp add: UpdateScans_Cons i' o')
qed

lemma UpdateScan_done:
  "sweepDone b e v s \<Longrightarrow>
   UpdateScan b e v s =
     (if IsPeakOverLevel (scan_decision b e v s)
      then TuneToPeak (ToggleRX b True (scan_decision b e v s))
      else (scan_decision b e v s)\<lparr>newScanStart := True\<rparr>)"
  by (simp add: UpdateScan_def scan_decision_def Let_def sweepDone_def)

lemma AutoTriggerLevel_fields:
  "preventKeypress (AutoTriggerLevel s) = preventKeypress s"
  "redrawScreen (AutoTriggerLevel s) = redrawScreen s"
  "outOfBounds (AutoTriggerLevel s) = outOfBounds s"
  "rssiHistory (AutoTriggerLevel s) = rssiHistory s"
  "rf (AutoTriggerLevel s) = rf s"
  "fMeasure (AutoTriggerLevel s) = fMeasure s"
  "scanInfo (AutoTriggerLevel s) = scanInfo s"
  "scanWaterfallCounter (AutoTriggerLevel s) = scanWaterfallCounter s"
  by (simp_all add: AutoTriggerLevel_def Let_def set_rssiTriggerLevel_def)

lemma UpdatePeakInfo_fields:
  "preventKeypress (UpdatePeakInfo s) = preventKeypress s"
  "redrawScreen (UpdatePeakInfo s) = redrawScreen s"
  "outOfBounds (UpdatePeakInfo s) = outOfBounds s"
  "rssiHistory (UpdatePeakInfo s) = rssiHistory s"
  "rf (UpdatePeakInfo s) = rf s"
  "fMeasure (UpdatePeakInfo s) = fMeasure s"
  "scanInfo (UpdatePeakInfo s) = scanInfo s"
  "scanWaterfallCounter (UpdatePeakInfo s) = scanWaterfallCounter s"
  by (simp_all add: UpdatePeakInfo_def UpdatePeakInfoForce_def AutoTriggerLevel_fields)

lemma UpdateWaterfall_fields:
  "preventKeypress (UpdateWaterfall s) = preventKeypress s"
  "redrawScreen (UpdateWaterfall s) = redrawScreen s"
  "outOfBounds (UpdateWaterfall s) = outOfBounds s"
  "rf (UpdateWaterfall s) = rf s"
  "fMeasure (UpdateWaterfall s) = fMeasure s"
  "scanInfo (UpdateWaterfall s) = scanInfo s"
  "peak (UpdateWaterfall s) = peak s"
  "settings (UpdateWaterfall s) = settings s"
  "isListening (UpdateWaterfall s) = isListening s"
  "monitorMode (UpdateWaterfall s) = monitorMode s"
  "audioState (UpdateWaterfall s) = audioState s"
  by (simp_all add: UpdateWaterfall_def Let_def)

lemma ToggleAudio_fields:
  "preventKeypress (ToggleAudio on s) = preventKeypress s"
  "redrawScreen (ToggleAudio on s) = redrawScreen s"
  "outOfBounds (ToggleAudio on s) = outOfBounds s"
  "rssiHistory (ToggleAudio on s) = rssiHistory s"
  "rf (ToggleAudio on s) = rf s"
  "fMeasure (ToggleAudio on s) = fMeasure s"
  "scanInfo (ToggleAudio on s) = scanInfo s"
  "peak (ToggleAudio on s) = peak s"
  "settings (ToggleAudio on s) = settings s"
  "isListening (ToggleAudio on s) = isListening s"
  by (simp_all add: ToggleAudio_def)

lemma ToggleRX_fields:
  "preventKeypress (ToggleRX b on s) = preventKeypress s"
  "redrawScreen (ToggleRX b on s) = redrawScreen s"
  "outOfBounds (ToggleRX b on s) = outOfBounds s"
  "rssiHistory (ToggleRX b on s) = rssiHistory s"
  "fMeasure (ToggleRX b on s) = fMeasure s"
  "scanInfo (ToggleRX b on s) = scanInfo s"
  "peak (ToggleRX b on s) = peak s"
  "settings (ToggleRX b on s) = settings s"
  "isListening (ToggleRX b on s) = on"
  by (auto simp: ToggleRX_def Let_def ToggleAudio_fields)

lemma ToggleRX_on_rf:
  "rf (ToggleRX b True s) =
     (if ENABLE_FEAT_N7SIX_SPECTRUM b \<and> isListening s then rf s
      else rf s @ [RADIO_SetupRegisters (fMeasure s)])"
  by (simp add: ToggleRX_def Let_def ToggleAudio_fields)

lemma TuneToPeak_fields:
  "preventKeypress (TuneToPeak s) = preventKeypress s"
  "redrawScreen (TuneToPeak s) = redrawScreen s"
  "outOfBounds (TuneToPeak s) = outOfBounds s"
  "rssiHistory (TuneToPeak s) = rssiHistory s"
  "peak (TuneToPeak s) = peak s"
  "settings (TuneToPeak s) = settings s"
  "isListening (TuneToPeak s) = isListening s"
  "fMeasure (TuneToPeak s) = peak_f (peak s)"
  "scan_f (scanInfo (TuneToPeak s)) = peak_f (peak s)"
  "rf (TuneToPeak s) = rf s @ [BK4819_SetFrequency (peak_f (peak s))]"
  by (simp_all add: TuneToPeak_def Let_def SetF_def)

lemma scan_decision_fields:
  "preventKeypress (scan_decision b e v s) = False"
  "redrawScreen (scan_decision b e v s) = True"
  "outOfBounds (scan_decision b e v s) = outOfBounds (Scan b e v s)"
  "rf (scan_decision b e v s) = rf (Scan b e v s)"
  "fMeasure (scan_decision b e v s) = fMeasure (Scan b e v s)"
  by (simp_all add: scan_decision_def Let_def UpdateWaterfall_fields UpdatePeakInfo_fields)

lemma scan_decision_rssiHistory:
  "drop_bit 7 (scan_measurementsCount (scanInfo s)) \<noteq> 0 \<Longrightarrow>
   rssiHistory (scan_decision b e v s) = rssiHistory (Scan b e v s)"
  by (simp add: scan_decision_def Let_def UpdateWaterfall_rssiHistory UpdatePeakInfo_fields
      Scan_fields)

lemma UpdateScan_done_fields:
  assumes "sweepDone b e v s"
  shows "preventKeypress (UpdateScan b e v s) = False"
    and "redrawScreen (UpdateScan b e v s) = True"
    and "outOfBounds (UpdateScan b e v s) = outOfBounds (Scan b e v s)"
    and "rssiHistory (UpdateScan b e v s) = rssiHistory (scan_decision b e v s)"
    and "peak (UpdateScan b e v s) = peak (scan_decision b e v s)"
    and "settings (UpdateScan b e v s) = settings (scan_decision b e v s)"
  by (simp_all add: UpdateScan_done [OF assms] TuneToPeak_fields ToggleRX_fields
      scan_decision_fields)

lemma sweep_run_rf:
  "unat (scan_i (scanInfo s)) + length rs \<le> unat (scan_measurementsCount (scanInfo s)) \<Longrightarrow>
   unat (scan_measurementsCount (scanInfo s)) \<le> 128 \<Longrightarrow>
   \<forall>k. unat (scan_i (scanInfo s)) \<le> k \<and> k < unat (scan_i (scanInfo s)) + length rs
       \<longrightarrow> rssiHistory s k \<noteq> RSSI_MAX_VALUE \<Longrightarrow>
   (if ENABLE_SCAN_RANGES b then blacklistFreqsIdx s = 0 else True) \<Longrightarrow>
   length (rf (UpdateScans b e rs s)) = length (rf s) + length rs"
proof (induction rs arbitrary: s)
  case Nil
  show ?case by (simp add: UpdateScans_def)
next
  case (Cons r rs)
  let ?s' = "UpdateScan b e r s"
  from Cons.prems have lt: "unat (scan_i (scanInfo s)) < unat (scan_measurementsCount (scanInfo s))"
    by simp
  then have nd: "\<not> sweepDone b e r s" by (simp add: sweepDone_iff word_less_nat_alt)
  have st: "?s' = NextScanStep (Scan b e r s)" using nd by (rule UpdateScan_step)
  have i': "unat (scan_i (scanInfo ?s')) = Suc (unat (scan_i (scanInfo s)))"
    by (simp add: st NextScanStep_fields Scan_fields unat_succ_below [OF lt])
  have mc': "scan_measurementsCount (scanInfo ?s') = scan_measurementsCount (scanInfo s)"
    by (simp add: st NextScanStep_fields Scan_fields)
  have cell: "rssiHistory s (unat (scan_i (scanInfo s))) \<noteq> RSSI_MAX_VALUE"
    using Cons.prems(3) by simp
  have g: "scan_guard b s"
    using cell Cons.prems(4) by (simp add: scan_guard_def IsBlacklisted_def)
  have rf': "length (rf ?s') = Suc (length (rf s))"
    by (simp add: st NextScanStep_fields Scan_rf g)
  have h': "\<forall>k\<ge>Suc (unat (scan_i (scanInfo s))). rssiHistory ?s' k = rssiHistory s k"
    by (simp add: st NextScanStep_fields Scan_rssiHistory_direct [OF Cons.prems(2)])
  have p1: "unat (scan_i (scanInfo ?s')) + length rs \<le> unat (scan_measurementsCount (scanInfo ?s'))"
    using Cons.prems by (simp add: i' mc')
  have p2: "unat (scan_measurementsCount (scanInfo ?s')) \<le> 128"
    using Cons.prems by (simp add: mc')
  have p3: "\<forall>k. unat (scan_i (scanInfo ?s')) \<le> k \<and> k < unat (scan_i (scanInfo ?s')) + length rs
       \<longrightarrow> rssiHistory ?s' k \<noteq> RSSI_MAX_VALUE"
    using Cons.prems(3) h' by (simp add: i')
  have p4: "if ENABLE_SCAN_RANGES b then blacklistFreqsIdx ?s' = 0 else True"
    using Cons.prems(4) by (simp add: st NextScanStep_fields Scan_fields)
  from Cons.IH [OF p1 p2 p3 p4] show ?case
    by (simp add: UpdateScans_Cons rf')
qed

text \<open>
  C5, evaluated on the code. A sweep of \<open>stepCount\<close> bins (at most 128, no bin skipped)
  that starts at index 0 does not complete on any of its first \<open>stepCount\<close> calls of
  \<open>UpdateScan\<close>; key handling stays blocked. The call after them completes it, and that
  call measures once more, at index \<open>stepCount\<close>: \<open>stepCount + 1\<close> measurements in all.
\<close>

theorem sweep_done_one_call_late:
  assumes i0: "scan_i (scanInfo s) = 0"
    and len: "length rs = unat (scan_measurementsCount (scanInfo s))"
    and dm: "unat (scan_measurementsCount (scanInfo s)) \<le> 128"
    and cells: "\<forall>k\<le>length rs. rssiHistory s k \<noteq> RSSI_MAX_VALUE"
    and nobl: "if ENABLE_SCAN_RANGES b then blacklistFreqsIdx s = 0 else True"
  shows "(\<forall>k<length rs. \<not> sweepDone b e (rs ! k) (UpdateScans b e (take k rs) s))
    \<and> preventKeypress (UpdateScans b e rs s) = preventKeypress s
    \<and> sweepDone b e r (UpdateScans b e rs s)
    \<and> \<not> preventKeypress (UpdateScans b e (rs @ [r]) s)
    \<and> length (rf (Scan b e r (UpdateScans b e rs s))) = length (rf s) + length rs + 1
    \<and> rssiHistory (Scan b e r (UpdateScans b e rs s)) (length rs) = r"
proof -
  let ?s' = "UpdateScans b e rs s"
  have u0: "unat (scan_i (scanInfo s)) = 0" by (simp add: i0)
  have all: "unat (scan_i (scanInfo s)) + length rs \<le> unat (scan_measurementsCount (scanInfo s))"
    by (simp add: u0 len)
  note run = sweep_run [OF all, of b e]
  note dir = sweep_run_direct [OF all dm, of b e]
  have i': "unat (scan_i (scanInfo ?s')) = length rs" using run by (simp add: u0)
  have mc': "scan_measurementsCount (scanInfo ?s') = scan_measurementsCount (scanInfo s)"
    using run by simp
  have early: "\<forall>k<length rs. \<not> sweepDone b e (rs ! k) (UpdateScans b e (take k rs) s)"
  proof (intro allI impI)
    fix k assume k: "k < length rs"
    then have pre: "unat (scan_i (scanInfo s)) + length (take k rs)
        \<le> unat (scan_measurementsCount (scanInfo s))"
      by (simp add: u0 len)
    from sweep_run [OF pre, of b e] k
    have "unat (scan_i (scanInfo (UpdateScans b e (take k rs) s)))
          < unat (scan_measurementsCount (scanInfo (UpdateScans b e (take k rs) s)))"
      by (simp add: u0 len)
    then show "\<not> sweepDone b e (rs ! k) (UpdateScans b e (take k rs) s)"
      by (simp add: sweepDone_iff word_less_nat_alt)
  qed
  have fin: "sweepDone b e r ?s'"
    by (simp add: sweepDone_iff word_less_nat_alt i' mc' len)
  have pk: "\<not> preventKeypress (UpdateScans b e (rs @ [r]) s)"
    by (simp add: UpdateScans_snoc UpdateScan_done_fields [OF fin])
  have cell: "rssiHistory ?s' (length rs) \<noteq> RSSI_MAX_VALUE"
    using dir cells by (simp add: u0)
  have g: "scan_guard b ?s'"
    using cell nobl run by (simp add: scan_guard_def IsBlacklisted_def i')
  have c3: "\<forall>k. unat (scan_i (scanInfo s)) \<le> k \<and> k < unat (scan_i (scanInfo s)) + length rs
       \<longrightarrow> rssiHistory s k \<noteq> RSSI_MAX_VALUE"
    using cells by (auto simp: u0)
  have rfl: "length (rf ?s') = length (rf s) + length rs"
    using all dm c3 nobl by (rule sweep_run_rf)
  have dm': "unat (scan_measurementsCount (scanInfo ?s')) \<le> 128" using dm by (simp add: mc')
  have wr: "rssiHistory (Scan b e r ?s') (length rs) = r"
    by (simp add: Scan_rssiHistory_direct [OF dm'] g i')
  from early run fin pk rfl wr show ?thesis
    by (simp add: Scan_rf g)
qed

lemma sweep_start_fields:
  "scan_i (scanInfo (sweep_start n)) = 0"
  "scan_measurementsCount (scanInfo (sweep_start n)) = to_u16 (drop_bit (StepsCount_val n) 128)"
  "rssiHistory (sweep_start n) k = 0"
  "rf (sweep_start n) = []"
  "outOfBounds (sweep_start n) = []"
  "preventKeypress (sweep_start n) = True"
  by (simp_all add: sweep_start_def InitScan_def ResetScanStats_def Let_def GetStepsCount_def
      plain_build_def globals_init_def settings_init_def)

lemma sweep_start_counts:
  "scan_measurementsCount (scanInfo (sweep_start STEPS_64)) = 64"
  "scan_measurementsCount (scanInfo (sweep_start STEPS_128)) = 128"
  by (simp_all add: sweep_start_fields to_u16_def drop_bit_eq_div)

text \<open>
  With 64 bins: call 64 does not complete the sweep, call 65 does, after 65 measurements,
  the last of them stored at index 64.
\<close>

theorem sweep_done_one_call_late_witness:
  "scan_measurementsCount (scanInfo (sweep_start STEPS_64)) = 64
   \<and> \<not> sweepDone plain_build bench 100
         (UpdateScans plain_build bench (replicate 63 100) (sweep_start STEPS_64))
   \<and> sweepDone plain_build bench 100
         (UpdateScans plain_build bench (replicate 64 100) (sweep_start STEPS_64))
   \<and> preventKeypress (UpdateScans plain_build bench (replicate 64 100) (sweep_start STEPS_64))
   \<and> \<not> preventKeypress (UpdateScans plain_build bench (replicate 65 100) (sweep_start STEPS_64))
   \<and> length (rf (Scan plain_build bench 100
         (UpdateScans plain_build bench (replicate 64 100) (sweep_start STEPS_64)))) = 65
   \<and> rssiHistory (Scan plain_build bench 100
         (UpdateScans plain_build bench (replicate 64 100) (sweep_start STEPS_64))) 64 = 100"
proof -
  have a1: "scan_i (scanInfo (sweep_start STEPS_64)) = 0" by (simp add: sweep_start_fields)
  have a2: "length (replicate 64 (100 :: u16))
            = unat (scan_measurementsCount (scanInfo (sweep_start STEPS_64)))"
    by (simp add: sweep_start_counts)
  have a3: "unat (scan_measurementsCount (scanInfo (sweep_start STEPS_64))) \<le> 128"
    by (simp add: sweep_start_counts)
  have a4: "\<forall>k\<le>length (replicate 64 (100 :: u16)).
              rssiHistory (sweep_start STEPS_64) k \<noteq> RSSI_MAX_VALUE"
    by (simp add: sweep_start_fields RSSI_MAX_VALUE_def)
  have a5: "if ENABLE_SCAN_RANGES plain_build
            then blacklistFreqsIdx (sweep_start STEPS_64) = 0 else True"
    by (simp add: plain_build_def)
  note t = sweep_done_one_call_late [OF a1 a2 a3 a4 a5, of bench 100]
  have n: "Suc 64 = 65" by simp
  have "replicate 64 (100 :: u16) @ [100] = replicate (Suc 64) 100"
    by (simp only: replicate_append_same replicate_Suc)
  then have e: "replicate 64 (100 :: u16) @ [100] = replicate 65 100"
    by (simp only: n)
  have k: "\<not> sweepDone plain_build bench (replicate 64 (100 :: u16) ! 63)
         (UpdateScans plain_build bench (take 63 (replicate 64 100)) (sweep_start STEPS_64))"
    using t [THEN conjunct1, rule_format, of 63] by simp
  note c2 = t [THEN conjunct2, THEN conjunct1]
  note c3 = t [THEN conjunct2, THEN conjunct2, THEN conjunct1]
  note c4 = t [THEN conjunct2, THEN conjunct2, THEN conjunct2, THEN conjunct1]
  note c5 = t [THEN conjunct2, THEN conjunct2, THEN conjunct2, THEN conjunct2, THEN conjunct1]
  note c6 = t [THEN conjunct2, THEN conjunct2, THEN conjunct2, THEN conjunct2, THEN conjunct2]
  have k': "\<not> sweepDone plain_build bench 100
         (UpdateScans plain_build bench (replicate 63 100) (sweep_start STEPS_64))"
    using k by simp
  have c2': "preventKeypress (UpdateScans plain_build bench (replicate 64 100) (sweep_start STEPS_64))"
    using c2 by (simp add: sweep_start_fields)
  have c4': "\<not> preventKeypress (UpdateScans plain_build bench (replicate 65 100) (sweep_start STEPS_64))"
    using c4 unfolding e .
  have c5': "length (rf (Scan plain_build bench 100
         (UpdateScans plain_build bench (replicate 64 100) (sweep_start STEPS_64)))) = 65"
    using c5 by (simp add: sweep_start_fields)
  have c6': "rssiHistory (Scan plain_build bench 100
         (UpdateScans plain_build bench (replicate 64 100) (sweep_start STEPS_64))) 64 = 100"
    using c6 by simp
  from k' c2' c3 c4' c5' c6' show ?thesis
    by (simp add: sweep_start_counts)
qed

lemma SetRssiHistory_log: "\<exists>l. outOfBounds (SetRssiHistory b idx v s) = outOfBounds s @ l"
  by (simp add: SetRssiHistory_def Let_def rssiHistory_store_fields note_access_log
      note_access_fields)

lemma Scan_log_past_end:
  assumes "128 \<le> unat (scan_i (scanInfo s))"
  shows "\<exists>l. outOfBounds (Scan b e v s)
             = outOfBounds s @ HistRead (unat (scan_i (scanInfo s))) # l"
proof (cases "scan_guard b s")
  case False
  with assms show ?thesis by (simp add: Scan_unfold note_access_log)
next
  case True
  let ?s1 = "SetF (scan_f (scanInfo s)) (note_access (HistRead (unat (scan_i (scanInfo s)))) s)"
  let ?s2 = "?s1\<lparr>scanInfo := (scanInfo ?s1)\<lparr>scan_rssi := v\<rparr>\<rparr>"
  have o2: "outOfBounds ?s2 = outOfBounds s @ [HistRead (unat (scan_i (scanInfo s)))]"
    using assms by (simp add: SetF_fields note_access_log)
  obtain l where "outOfBounds (SetRssiHistory b (scan_i (scanInfo ?s1)) v ?s2) = outOfBounds ?s2 @ l"
    using SetRssiHistory_log by blast
  then have "outOfBounds (Scan b e v s)
             = outOfBounds s @ HistRead (unat (scan_i (scanInfo s))) # l"
    using True by (simp add: Scan_unfold UpdateScanInfo_fields Measure_def o2)
  then show ?thesis by blast
qed

lemma completing_call_128:
  assumes all: "unat (scan_i (scanInfo s)) + length rs
                  = unat (scan_measurementsCount (scanInfo s))"
    and m: "scan_measurementsCount (scanInfo s) = 128"
  shows "scan_i (scanInfo (UpdateScans b e rs s)) = 128"
    and "scan_measurementsCount (scanInfo (UpdateScans b e rs s)) = 128"
    and "outOfBounds (UpdateScans b e rs s) = outOfBounds s"
    and "rssiHistory (UpdateScans b e rs s) 128 = rssiHistory s 128"
    and "blacklistFreqs (UpdateScans b e rs s) = blacklistFreqs s"
    and "blacklistFreqsIdx (UpdateScans b e rs s) = blacklistFreqsIdx s"
    and "sweepDone b e r (UpdateScans b e rs s)"
    and "outOfBounds (UpdateScan b e r (UpdateScans b e rs s))
           = outOfBounds s @ HistRead 128
               # (if scan_guard b (UpdateScans b e rs s) then [HistWrite 128 r] else [])"
proof -
  let ?s' = "UpdateScans b e rs s"
  have le: "unat (scan_i (scanInfo s)) + length rs \<le> unat (scan_measurementsCount (scanInfo s))"
    by (simp add: all)
  have dm: "unat (scan_measurementsCount (scanInfo s)) \<le> 128" by (simp add: m)
  have sum: "unat (scan_i (scanInfo s)) + length rs = 128" by (simp add: all m)
  note run = sweep_run [OF le, of b e]
  note dir = sweep_run_direct [OF le dm, of b e]
  show mc': "scan_measurementsCount (scanInfo ?s') = 128" using run by (simp add: m)
  have "unat (scan_i (scanInfo ?s')) = unat (128 :: u16)" using run by (simp add: sum)
  then show i': "scan_i (scanInfo ?s') = 128" by (simp only: word_unat_eq_iff)
  show ob: "outOfBounds ?s' = outOfBounds s" using dir by simp
  show "rssiHistory ?s' 128 = rssiHistory s 128" using dir by (simp add: sum)
  show "blacklistFreqs ?s' = blacklistFreqs s" using run by simp
  show "blacklistFreqsIdx ?s' = blacklistFreqsIdx s" using run by simp
  show fin: "sweepDone b e r ?s'" by (simp add: sweepDone_iff i' mc')
  have dm': "unat (scan_measurementsCount (scanInfo ?s')) \<le> 128" by (simp add: mc')
  show "outOfBounds (UpdateScan b e r ?s')
           = outOfBounds s @ HistRead 128 # (if scan_guard b ?s' then [HistWrite 128 r] else [])"
    by (simp add: UpdateScan_done_fields [OF fin] Scan_outOfBounds_direct [OF dm'] i' ob)
qed

lemma sweep_blacklisted_fields:
  "scan_i (scanInfo sweep_blacklisted) = 0"
  "scan_measurementsCount (scanInfo sweep_blacklisted) = 128"
  "rssiHistory sweep_blacklisted k = 0"
  "rf sweep_blacklisted = []"
  "outOfBounds sweep_blacklisted = []"
  "blacklistFreqsIdx sweep_blacklisted = 1"
  "blacklistFreqs sweep_blacklisted = 128 # replicate 14 0"
  by (simp_all add: sweep_blacklisted_def sweep_start_fields(1) sweep_start_fields(3-6)
      sweep_start_counts)

text \<open>
  C6, as the code has it. The calls of \<open>UpdateScan\<close> that a sweep still has to make before
  its index reaches \<open>measurementsCount\<close> lead to a call with
  \<open>scanInfo.i = scanInfo.measurementsCount\<close>; that call completes the sweep, and its
  \<open>Scan\<close> reads \<open>rssiHistory\<close> at that index first: with 128 measurements or more, past
  the end of the array. With exactly 128 measurements nothing is accessed outside the array
  before that call. The call reads the element at index 128, one past the end; it tunes,
  measures and writes the sample to index 128 when the value read is not the skip sentinel
  and, in a build with scan ranges, index 128 is not blacklisted. Otherwise it reads only.
\<close>

theorem completing_scan_reads_past_end:
  assumes all: "unat (scan_i (scanInfo s)) + length rs
                  = unat (scan_measurementsCount (scanInfo s))"
  shows "scan_i (scanInfo (UpdateScans b e rs s))
           = scan_measurementsCount (scanInfo (UpdateScans b e rs s))
    \<and> sweepDone b e r (UpdateScans b e rs s)
    \<and> (128 \<le> unat (scan_measurementsCount (scanInfo s)) \<longrightarrow>
         (\<exists>l. outOfBounds (UpdateScan b e r (UpdateScans b e rs s))
               = outOfBounds (UpdateScans b e rs s)
                 @ HistRead (unat (scan_measurementsCount (scanInfo s))) # l))
    \<and> (scan_measurementsCount (scanInfo s) = 128 \<longrightarrow>
         outOfBounds (UpdateScans b e rs s) = outOfBounds s
         \<and> scan_guard b (UpdateScans b e rs s)
             = (rssiHistory (UpdateScans b e rs s) 128 \<noteq> RSSI_MAX_VALUE
                \<and> (if ENABLE_SCAN_RANGES b
                    then \<not> IsBlacklisted (UpdateScans b e rs s) 128 else True))
         \<and> outOfBounds (UpdateScan b e r (UpdateScans b e rs s))
             = outOfBounds s @ HistRead 128
                 # (if scan_guard b (UpdateScans b e rs s) then [HistWrite 128 r] else [])
         \<and> rf (Scan b e r (UpdateScans b e rs s))
             = (if scan_guard b (UpdateScans b e rs s)
                then rf (UpdateScans b e rs s)
                       @ [BK4819_SetFrequency (scan_f (scanInfo (UpdateScans b e rs s)))]
                else rf (UpdateScans b e rs s)))"
proof -
  let ?s' = "UpdateScans b e rs s"
  have le: "unat (scan_i (scanInfo s)) + length rs \<le> unat (scan_measurementsCount (scanInfo s))"
    by (simp add: all)
  note run = sweep_run [OF le, of b e]
  have mc': "scan_measurementsCount (scanInfo ?s') = scan_measurementsCount (scanInfo s)"
    using run by simp
  have ui: "unat (scan_i (scanInfo ?s')) = unat (scan_measurementsCount (scanInfo ?s'))"
    using run by (simp add: all)
  then have eq: "scan_i (scanInfo ?s') = scan_measurementsCount (scanInfo ?s')"
    by (simp only: word_unat_eq_iff)
  have fin: "sweepDone b e r ?s'" by (simp add: sweepDone_iff eq)
  have far: "\<exists>l. outOfBounds (UpdateScan b e r ?s')
               = outOfBounds ?s' @ HistRead (unat (scan_measurementsCount (scanInfo s))) # l"
    if big: "128 \<le> unat (scan_measurementsCount (scanInfo s))"
  proof -
    have "128 \<le> unat (scan_i (scanInfo ?s'))" using big by (simp add: ui mc')
    from Scan_log_past_end [OF this, of b e r] show ?thesis
      by (simp add: UpdateScan_done_fields [OF fin] ui mc')
  qed
  have past: "outOfBounds ?s' = outOfBounds s
         \<and> scan_guard b ?s'
             = (rssiHistory ?s' 128 \<noteq> RSSI_MAX_VALUE
                \<and> (if ENABLE_SCAN_RANGES b then \<not> IsBlacklisted ?s' 128 else True))
         \<and> outOfBounds (UpdateScan b e r ?s')
             = outOfBounds s @ HistRead 128 # (if scan_guard b ?s' then [HistWrite 128 r] else [])"
    if m: "scan_measurementsCount (scanInfo s) = 128"
  proof -
    note c = completing_call_128 [OF all m, of b e]
    have g: "scan_guard b ?s'
             = (rssiHistory ?s' 128 \<noteq> RSSI_MAX_VALUE
                \<and> (if ENABLE_SCAN_RANGES b then \<not> IsBlacklisted ?s' 128 else True))"
      by (simp add: scan_guard_def c(1))
    from c(3) g c(8) [of r] show ?thesis by simp
  qed
  from eq fin far past show ?thesis by (simp add: Scan_rf)
qed

text \<open>
  A sweep of 128 bins in a build without scan ranges: the completing call reads index 128
  and writes its sample 77 there.
\<close>

theorem completing_scan_reads_past_end_witness:
  "scan_measurementsCount (scanInfo (sweep_start STEPS_128)) = 128
   \<and> scan_i (scanInfo (UpdateScans plain_build bench (replicate 128 100) (sweep_start STEPS_128)))
       = 128
   \<and> outOfBounds (UpdateScans plain_build bench (replicate 128 100) (sweep_start STEPS_128)) = []
   \<and> outOfBounds (UpdateScan plain_build bench 77
         (UpdateScans plain_build bench (replicate 128 100) (sweep_start STEPS_128)))
       = [HistRead 128, HistWrite 128 77]"
proof -
  have a1: "unat (scan_i (scanInfo (sweep_start STEPS_128))) + length (replicate 128 (100 :: u16))
            = unat (scan_measurementsCount (scanInfo (sweep_start STEPS_128)))"
    by (simp add: sweep_start_fields(1) sweep_start_counts)
  note t = completing_scan_reads_past_end [OF a1, of plain_build bench 77]
  note c1 = t [THEN conjunct1]
  note c4 = t [THEN conjunct2, THEN conjunct2, THEN conjunct2, rule_format,
               OF sweep_start_counts(2)]
  note h = completing_call_128 [OF a1 sweep_start_counts(2), of plain_build bench]
  have cell: "rssiHistory (UpdateScans plain_build bench (replicate 128 100)
                (sweep_start STEPS_128)) 128 = 0"
    using h(4) by (simp add: sweep_start_fields(3))
  have nb: "\<not> ENABLE_SCAN_RANGES plain_build" by (simp add: plain_build_def)
  have g: "scan_guard plain_build
             (UpdateScans plain_build bench (replicate 128 100) (sweep_start STEPS_128))"
    using c4 [THEN conjunct2, THEN conjunct1]
    by (simp add: cell RSSI_MAX_VALUE_def nb)
  from c1 c4 g h(2) show ?thesis
    by (simp add: sweep_start_counts sweep_start_fields(3-6))
qed

text \<open>
  C6 fails as stated in a build with scan ranges. Index 128 is blacklisted; at the
  completing call of a sweep of 128 bins the value read at index 128 is not the skip
  sentinel, and yet the call only reads: nothing is written and the receiver is not tuned
  for a measurement.
\<close>

theorem blacklisted_completing_scan_only_reads:
  "scan_i (scanInfo (UpdateScans range_build bench (replicate 128 100) sweep_blacklisted)) = 128
   \<and> scan_measurementsCount
        (scanInfo (UpdateScans range_build bench (replicate 128 100) sweep_blacklisted)) = 128
   \<and> rssiHistory (UpdateScans range_build bench (replicate 128 100) sweep_blacklisted) 128
        \<noteq> RSSI_MAX_VALUE
   \<and> outOfBounds (UpdateScan range_build bench 77
        (UpdateScans range_build bench (replicate 128 100) sweep_blacklisted)) = [HistRead 128]
   \<and> rf (Scan range_build bench 77
        (UpdateScans range_build bench (replicate 128 100) sweep_blacklisted))
       = rf (UpdateScans range_build bench (replicate 128 100) sweep_blacklisted)"
proof -
  let ?s' = "UpdateScans range_build bench (replicate 128 100) sweep_blacklisted"
  have a1: "unat (scan_i (scanInfo sweep_blacklisted)) + length (replicate 128 (100 :: u16))
            = unat (scan_measurementsCount (scanInfo sweep_blacklisted))"
    by (simp add: sweep_blacklisted_fields)
  note h = completing_call_128 [OF a1 sweep_blacklisted_fields(2), of range_build bench]
  have cell: "rssiHistory ?s' 128 = 0" using h(4) by (simp add: sweep_blacklisted_fields)
  have bl: "IsBlacklisted ?s' 128"
    by (simp add: IsBlacklisted_def h(5) h(6) sweep_blacklisted_fields)
  have rb: "ENABLE_SCAN_RANGES range_build" by (simp add: range_build_def)
  have g: "\<not> scan_guard range_build ?s'"
    using bl by (simp add: scan_guard_def h(1) rb)
  from h(1) h(2) cell g h(8) [of 77] show ?thesis
    by (simp add: Scan_rf RSSI_MAX_VALUE_def sweep_blacklisted_fields)
qed

lemma decision_isListening: "isListening (scan_decision b e v s) = isListening s"
proof -
  have a: "\<And>t. isListening (AutoTriggerLevel t) = isListening t"
    by (simp add: AutoTriggerLevel_def Let_def set_rssiTriggerLevel_def)
  have p: "\<And>t. isListening (UpdatePeakInfo t) = isListening t"
    by (simp add: UpdatePeakInfo_def UpdatePeakInfoForce_def a)
  show ?thesis
    by (simp add: scan_decision_def Let_def UpdateWaterfall_fields p Scan_fields)
qed

section \<open>Entering and leaving the lock\<close>

text \<open>
  C7. When a sweep completes with the held peak strictly above the trigger level, the
  receiver is switched to listening and the last frequency the RF front end is given is
  \<open>peak.f\<close>: \<open>TuneToPeak\<close> calls \<open>BK4819_SetFrequency\<close> with it after \<open>ToggleRX\<close> has set the
  receiver up at the frequency of the last sweep step.
\<close>

theorem lock_tunes_to_peak:
  assumes fin: "sweepDone b e r s"
    and over: "rssiTriggerLevel (settings (scan_decision b e r s))
                 < peak_rssi (peak (scan_decision b e r s))"
  shows "isListening (UpdateScan b e r s)
    \<and> peak (UpdateScan b e r s) = peak (scan_decision b e r s)
    \<and> fMeasure (UpdateScan b e r s) = peak_f (peak (scan_decision b e r s))
    \<and> scan_f (scanInfo (UpdateScan b e r s)) = peak_f (peak (scan_decision b e r s))
    \<and> rf (UpdateScan b e r s)
        = rf (Scan b e r s)
          @ (if ENABLE_FEAT_N7SIX_SPECTRUM b \<and> isListening s then []
             else [RADIO_SetupRegisters (fMeasure (Scan b e r s))])
          @ [BK4819_SetFrequency (peak_f (peak (scan_decision b e r s)))]
    \<and> last (rf (UpdateScan b e r s))
        = BK4819_SetFrequency (peak_f (peak (scan_decision b e r s)))"
proof -
  let ?d = "scan_decision b e r s"
  from over have "IsPeakOverLevel ?d" by (simp add: IsPeakOverLevel_def)
  then have u: "UpdateScan b e r s = TuneToPeak (ToggleRX b True ?d)"
    by (simp add: UpdateScan_done [OF fin])
  show ?thesis
    by (simp add: u TuneToPeak_fields ToggleRX_fields ToggleRX_on_rf scan_decision_fields
        decision_isListening)
qed

text \<open>
  Scenario E: the sweep stands at 146612500, the peak at 146525000; the front end is tuned
  to 146525000 last.
\<close>

theorem lock_tunes_to_peak_witness:
  "sweepDone plain_build bench 120 scenario_E
   \<and> peak_f (peak scenario_E) = 146525000
   \<and> scan_f (scanInfo scenario_E) = 146612500
   \<and> isListening (UpdateScan plain_build bench 120 scenario_E)
   \<and> fMeasure (UpdateScan plain_build bench 120 scenario_E) = 146525000
   \<and> rf (UpdateScan plain_build bench 120 scenario_E)
       = [BK4819_SetFrequency 146612500, RADIO_SetupRegisters 146612500,
          BK4819_SetFrequency 146525000]"
proof -
  have fin: "sweepDone plain_build bench 120 scenario_E"
    by (simp add: sweepDone_iff scenario_E_def)
  have g: "scan_guard plain_build scenario_E"
    by (simp add: scan_guard_def scenario_E_def globals_init_def plain_build_def
        RSSI_MAX_VALUE_def)
  have sc: "peak (Scan plain_build bench 120 scenario_E) = peak scenario_E"
      "rssiTriggerLevel (settings (Scan plain_build bench 120 scenario_E)) = 150"
      "scan_rssiMax (scanInfo (Scan plain_build bench 120 scenario_E)) = 180"
      "scanWaterfallCounter (Scan plain_build bench 120 scenario_E) = 0"
    by (simp_all add: Scan_unfold g UpdateScanInfo_def Measure_def SetRssiHistory_def
        rssiHistory_store_def note_access_def SetF_def Let_def scenario_E_def globals_init_def
        settings_init_def plain_build_def)
  have pe: "peak scenario_E = \<lparr>peak_t = 5, peak_rssi = 200, peak_f = 146525000, peak_i = 10\<rparr>"
    by (simp add: scenario_E_def)
  have d: "peak (scan_decision plain_build bench 120 scenario_E)
             = \<lparr>peak_t = 6, peak_rssi = 200, peak_f = 146525000, peak_i = 10\<rparr>"
      "rssiTriggerLevel (settings (scan_decision plain_build bench 120 scenario_E)) = 150"
    by (simp_all add: scan_decision_def Let_def UpdatePeakInfo_def sc pe UpdateWaterfall_fields)
  have over: "rssiTriggerLevel (settings (scan_decision plain_build bench 120 scenario_E))
                 < peak_rssi (peak (scan_decision plain_build bench 120 scenario_E))"
    by (simp add: d)
  have rf1: "rf (Scan plain_build bench 120 scenario_E)
               = rf scenario_E @ [BK4819_SetFrequency (scan_f (scanInfo scenario_E))]"
    "fMeasure (Scan plain_build bench 120 scenario_E) = scan_f (scanInfo scenario_E)"
    by (simp_all add: Scan_unfold g UpdateScanInfo_fields Measure_fields SetF_fields
        note_access_fields)
  have e1: "rf scenario_E = []" "scan_f (scanInfo scenario_E) = 146612500"
    by (simp_all add: scenario_E_def globals_init_def)
  have rf0: "rf (Scan plain_build bench 120 scenario_E) = [BK4819_SetFrequency 146612500]"
    "fMeasure (Scan plain_build bench 120 scenario_E) = 146612500"
    by (simp_all add: rf1 e1)
  have e0: "peak_f (peak scenario_E) = 146525000" "scan_f (scanInfo scenario_E) = 146612500"
    "isListening scenario_E = False"
    by (simp_all add: scenario_E_def)
  have nb: "ENABLE_FEAT_N7SIX_SPECTRUM plain_build = False" by (simp add: plain_build_def)
  from lock_tunes_to_peak [OF fin over] fin show ?thesis
    by (simp add: d rf0 nb e0)
qed

text \<open>
  C8, as the code has it. A listening receiver stays listening exactly when the listen
  timer has not run out (a detected tail, or the still mode, sets it to 0 first), or the
  sample is at or above the trigger level and no tail was detected, or monitor mode is on.
  The threshold is \<open>settings.rssiTriggerLevel\<close> itself, which \<open>UpdateListening\<close> does not
  change; on leaving, the sweep statistics are reset.
\<close>

theorem UpdateListening_exit:
  assumes "isListening s"
  shows "isListening (UpdateListening b e tail r s)
         = ((if ENABLE_FEAT_N7SIX_SPECTRUM b then (if tail then 0 else listenT s)
             else (if currentState s = STILL then 0 else listenT s)) \<noteq> 0
            \<or> (rssiTriggerLevel (settings s) \<le> r \<and> \<not> (ENABLE_FEAT_N7SIX_SPECTRUM b \<and> tail))
            \<or> monitorMode s)
    \<and> rssiTriggerLevel (settings (UpdateListening b e tail r s)) = rssiTriggerLevel (settings s)
    \<and> (if isListening (UpdateListening b e tail r s) then True
        else scan_rssi (scanInfo (UpdateListening b e tail r s)) = 0
             \<and> scan_rssiMax (scanInfo (UpdateListening b e tail r s)) = 0
             \<and> scan_iPeak (scanInfo (UpdateListening b e tail r s)) = 0
             \<and> scan_fPeak (scanInfo (UpdateListening b e tail r s)) = 0)"
proof -
  have m: "\<And>t. isListening (Measure b r t) = isListening t"
      "\<And>t. monitorMode (Measure b r t) = monitorMode t"
      "\<And>t. settings (Measure b r t) = settings t"
      "\<And>t. scan_rssi (scanInfo (Measure b r t)) = r"
      "\<And>t. listenWaterfallCounter (Measure b r t) = listenWaterfallCounter t"
      "\<And>t. audioState (Measure b r t) = audioState t"
    by (simp_all add: Measure_def SetRssiHistory_def rssiHistory_store_def note_access_def Let_def)
  show ?thesis
    using assms
    by (simp add: UpdateListening_def Let_def m UpdateWaterfall_fields IsPeakOverLevel_def
        ToggleRX_def ToggleAudio_def ResetScanStats_def)
qed

text \<open>At trigger level 150 a sample of 150 keeps the lock and a sample of 149 ends it.\<close>

theorem UpdateListening_exit_witness:
  "isListening lock_demo \<and> rssiTriggerLevel (settings lock_demo) = 150
   \<and> isListening (UpdateListening plain_build bench False 150 lock_demo)
   \<and> \<not> isListening (UpdateListening plain_build bench False 149 lock_demo)
   \<and> scan_rssiMax (scanInfo (UpdateListening plain_build bench False 149 lock_demo)) = 0"
proof -
  have f: "isListening lock_demo" "rssiTriggerLevel (settings lock_demo) = 150"
    "listenT lock_demo = 0" "monitorMode lock_demo = False" "currentState lock_demo = SPECTRUM"
    by (simp_all add: lock_demo_def globals_init_def settings_init_def)
  have nb: "ENABLE_FEAT_N7SIX_SPECTRUM plain_build = False" by (simp add: plain_build_def)
  from UpdateListening_exit [OF f(1), of plain_build bench False 150]
    UpdateListening_exit [OF f(1), of plain_build bench False 149]
  show ?thesis
    by (simp add: f nb)
qed

text \<open>
  C8 fails as stated: the lock is entered at a peak of 150 with trigger level 150, and it
  is left on a sample of 149, one unit below the same level; no margin lowers the threshold.
\<close>

theorem lock_exit_without_hysteresis:
  "IsPeakOverLevel (lock_demo\<lparr>peak := (peak lock_demo)\<lparr>peak_rssi := 150\<rparr>\<rparr>)
   \<and> rssiTriggerLevel (settings lock_demo) = 150
   \<and> listenT lock_demo = 0 \<and> \<not> monitorMode lock_demo
   \<and> \<not> isListening (UpdateListening plain_build bench False 149 lock_demo)"
  by (simp add: UpdateListening_def Let_def Measure_def SetRssiHistory_def
      rssiHistory_store_def note_access_def IsPeakOverLevel_def ToggleRX_def ToggleAudio_def
      ResetScanStats_def lock_demo_def globals_init_def settings_init_def plain_build_def
      UpdateWaterfall_fields)

end
